theory Spec2Isabelle
  imports Complex_Main
begin

section \<open>Configuration constants of build\_knowledge\_base.py\<close>

definition CHUNK_SIZE :: int where
  "CHUNK_SIZE = 500"

definition CHUNK_OVERLAP :: int where
  "CHUNK_OVERLAP = 100"

definition MAX_RETRIES :: int where
  "MAX_RETRIES = 3"

definition CONCURRENT_REQUESTS :: nat where
  "CONCURRENT_REQUESTS = 4"

section \<open>Python string primitives used by the chunker\<close>

text \<open>
  A Python \<open>str\<close> is modelled as a \<open>string\<close>, one \<open>char\<close> per code point (code points
  below 256). \<open>py_isspace\<close> is the set of those code points that \<open>str.strip()\<close> removes:
  TAB, LF, VT, FF, CR, the separators FS, GS, RS, US, the space, NEL (0x85) and the
  no-break space (0xA0).
\<close>

definition py_isspace :: "char \<Rightarrow> bool" where
  "py_isspace c = (of_char c \<in> {9, 10, 11, 12, 13, 28, 29, 30, 31, 32, 133, 160 :: nat})"

text \<open>\<open>text.strip()\<close>: leading and trailing whitespace removed.\<close>

definition strip :: "string \<Rightarrow> string" where
  "strip s = rev (dropWhile py_isspace (rev (dropWhile py_isspace s)))"

text \<open>
  A slice bound of Python: a negative bound counts from the end, and every bound is
  clamped into \<open>0 .. len\<close>.
\<close>

definition slice_bound :: "nat \<Rightarrow> int \<Rightarrow> nat" where
  "slice_bound n i = (if i < 0 then nat (max (i + int n) 0) else min (nat i) n)"

text \<open>\<open>xs[i:j]\<close> for integer bounds; empty when the upper bound is not above the lower.\<close>

definition py_slice :: "'a list \<Rightarrow> int \<Rightarrow> int \<Rightarrow> 'a list" where
  "py_slice xs i j =
     (let a = slice_bound (length xs) i; b = slice_bound (length xs) j
      in take (b - a) (drop a xs))"

section \<open>The chunker\<close>

text \<open>
  The \<open>while\<close> loop of \<open>chunk_text\<close> (lines 68 to 74), over the already stripped text,
  with the loop variables \<open>start\<close> and \<open>chunks\<close>. The parameters are Python integers, and
  nothing bounds the number of iterations, so the loop is a partial function: \<open>None\<close>
  is a loop that never ends.
\<close>

partial_function (option) chunk_loop ::
  "string \<Rightarrow> int \<Rightarrow> int \<Rightarrow> int \<Rightarrow> string list \<Rightarrow> string list option" where
  "chunk_loop text chunk_size overlap start chunks =
     (if start < int (length text) then
        (let end' = min (start + chunk_size) (int (length text));
             chunk = py_slice text start end';
             chunks' = chunks @ [chunk]
         in if end' = int (length text) then Some chunks'
            else chunk_loop text chunk_size overlap (start + (chunk_size - overlap)) chunks')
      else Some chunks)"

declare chunk_loop.simps [code]

definition chunk_text :: "string \<Rightarrow> int \<Rightarrow> int \<Rightarrow> string list option" where
  "chunk_text text chunk_size overlap =
     (let text' = strip text
      in if text' = [] then Some [] else chunk_loop text' chunk_size overlap 0 [])"

text \<open>
  Reading a chunk sequence back: the first chunk whole, and every later chunk without
  its first \<open>overlap\<close> characters, which repeat the end of the chunk before it.
\<close>

definition join_chunks :: "int \<Rightarrow> string list \<Rightarrow> string" where
  "join_chunks overlap cs =
     (case cs of [] \<Rightarrow> [] | c # rest \<Rightarrow> c @ concat (map (drop (nat overlap)) rest))"

section \<open>The embedding client\<close>

datatype error =
    Api_key_not_set
  | Embedding_failed
  | Key_error string
  | Attribute_error
  | Type_error
  | Value_error
  | Read_error
  | Overflow_error
  | Binding_error

text \<open>
  What one \<open>session.post\<close> gives back: a response with its status and, for the body, the
  string \<open>json.dumps(data["data"][0]["embedding"])\<close> when the body can be read that way
  (\<open>None\<close> when reading it raises), or an exception of the request itself.
\<close>

datatype response = Response (status: int) (body_embedding: "string option")

datatype outcome = Responded response | Request_failed

text \<open>What a call does, in order: the attempts it posts and the seconds it sleeps.\<close>

datatype io = Post nat | Sleep nat

text \<open>
  The \<open>for attempt in range(retries)\<close> loop of \<open>get_embedding\<close> (lines 78 to 101):
  \<open>reply attempt\<close> is the outcome of the request of that attempt, \<open>remaining\<close> the number
  of attempts left. Every exception inside the \<open>try\<close> is caught, logged and followed by
  a sleep of 2 seconds; running out of attempts raises the \<open>RuntimeError\<close> of line 101.
\<close>

fun attempt_loop :: "(nat \<Rightarrow> outcome) \<Rightarrow> nat \<Rightarrow> nat \<Rightarrow> io list \<Rightarrow> (error + string) \<times> io list" where
  "attempt_loop reply attempt 0 trace = (Inl Embedding_failed, trace)"
| "attempt_loop reply attempt (Suc remaining) trace =
     (case reply attempt of
        Responded resp \<Rightarrow>
          if status resp = 200 then
            (case body_embedding resp of
               Some embedding \<Rightarrow> (Inr embedding, trace @ [Post attempt])
             | None \<Rightarrow> attempt_loop reply (Suc attempt) remaining (trace @ [Post attempt, Sleep 2]))
          else if status resp = 429 then
            attempt_loop reply (Suc attempt) remaining (trace @ [Post attempt, Sleep (2 ^ attempt)])
          else attempt_loop reply (Suc attempt) remaining (trace @ [Post attempt, Sleep 2])
      | Request_failed \<Rightarrow>
          attempt_loop reply (Suc attempt) remaining (trace @ [Post attempt, Sleep 2]))"

definition get_embedding :: "(nat \<Rightarrow> outcome) \<Rightarrow> int \<Rightarrow> (error + string) \<times> io list" where
  "get_embedding reply retries = attempt_loop reply 0 (nat retries) []"

section \<open>Documents, the store and the environment of a run\<close>

text \<open>
  A JSON value, as \<open>json.load\<close> returns it. A number that is not an integer is kept by its
  literal.
\<close>

datatype jvalue =
    JNull
  | JBool bool
  | JInt int
  | JFloat string
  | JStr string
  | JArray "jvalue list"
  | JObject "(string \<times> jvalue) list"

text \<open>A post of discourse\_posts.json or an entry of metadata.json: a JSON object.\<close>

type_synonym document = "string \<rightharpoonup> jvalue"

text \<open>\<open>doc[key]\<close> raises \<open>KeyError\<close> on a missing key; \<open>doc.get(key, default)\<close> does not.\<close>

definition lookup :: "document \<Rightarrow> string \<Rightarrow> error + jvalue" where
  "lookup doc key = (case doc key of None \<Rightarrow> Inl (Key_error key) | Some v \<Rightarrow> Inr v)"

definition get_default :: "document \<Rightarrow> string \<Rightarrow> jvalue \<Rightarrow> jvalue" where
  "get_default doc key dflt = (case doc key of None \<Rightarrow> dflt | Some v \<Rightarrow> v)"

datatype table = Discourse_chunks | Markdown_chunks

text \<open>A row is the tuple of values bound to the \<open>INSERT\<close> statement.\<close>

type_synonym row = "jvalue list"

text \<open>An entry of \<open>to_insert\<close>: the document, the index of the chunk in it, the chunk.\<close>

type_synonym segment = "document \<times> nat \<times> string"

datatype event =
    Removed_db
  | Created_db
  | Read_file string
  | Gather nat "string list"
  | Insert table row
  | Commit

text \<open>
  The part of the world that a run changes: the committed content of knowledge\_base.db
  (\<open>None\<close> when the file does not exist), the rows inserted through the connection and not
  yet committed, the number of \<open>get_embedding\<close> calls made so far, and the effects so far
  in order.
\<close>

record world =
  db_file :: "(table \<times> row) list option"
  uncommitted :: "(table \<times> row) list"
  calls :: nat
  log :: "event list"

text \<open>
  What is at a path of the file system: nothing (\<open>os.path.exists\<close> is false), something
  that exists but whose reading raises (a directory, a file that may not be opened, or a
  content that cannot be decoded or parsed), or a content that is read.
\<close>

datatype 'a path_state = Absent | Unreadable | Holds 'a

text \<open>
  The part that a run only reads: the API key of the environment, the two JSON files, the
  paths of the markdown directory by the listed file name, the endpoint (what the request of
  a given attempt of a given call with a given text gives back) and the time at which each
  call completes.
\<close>

record env =
  api_key :: "string option"
  discourse_json :: "document list path_state"
  metadata_json :: "document list path_state"
  markdown_files :: "string \<Rightarrow> string path_state"
  endpoint :: "nat \<Rightarrow> string \<Rightarrow> nat \<Rightarrow> outcome"
  latency :: "nat \<Rightarrow> nat"

definition DISCOURSE_JSON :: string where
  "DISCOURSE_JSON = ''discourse_posts.json''"

definition METADATA_JSON :: string where
  "METADATA_JSON = ''metadata.json''"

definition MARKDOWN_DIR :: string where
  "MARKDOWN_DIR = ''tds_pages_md''"

definition committed_rows :: "world \<Rightarrow> (table \<times> row) list" where
  "committed_rows w = (case db_file w of None \<Rightarrow> [] | Some rows \<Rightarrow> rows)"

text \<open>
  Binding a value to a parameter of a statement: an integer outside the signed 64 bits
  raises \<open>OverflowError\<close>, a list or a dictionary is a type that cannot be bound, and the
  values of a row are bound from left to right.
\<close>

definition bind_error :: "jvalue \<Rightarrow> error option" where
  "bind_error v =
     (case v of
        JInt k \<Rightarrow> if - (2 ^ 63) \<le> k \<and> k < 2 ^ 63 then None else Some Overflow_error
      | JArray vs \<Rightarrow> Some Binding_error
      | JObject members \<Rightarrow> Some Binding_error
      | _ \<Rightarrow> None)"

definition row_bind_error :: "row \<Rightarrow> error option" where
  "row_bind_error r = (case List.map_filter bind_error r of [] \<Rightarrow> None | err # errs \<Rightarrow> Some err)"

text \<open>\<open>conn.execute('INSERT ...', row)\<close>, which inserts nothing when it raises, and \<open>conn.commit()\<close>.\<close>

definition execute_insert :: "table \<Rightarrow> row \<Rightarrow> world \<Rightarrow> error + world" where
  "execute_insert tbl r w =
     (case row_bind_error r of
        Some err \<Rightarrow> Inl err
      | None \<Rightarrow> Inr (w\<lparr>uncommitted := uncommitted w @ [(tbl, r)], log := log w @ [Insert tbl r]\<rparr>))"

definition commit :: "world \<Rightarrow> world" where
  "commit w =
     w\<lparr>db_file := Some (committed_rows w @ uncommitted w), uncommitted := [],
       log := log w @ [Commit]\<rparr>"

section \<open>The batch scheduler\<close>

text \<open>The result of the \<open>get_embedding\<close> call with number \<open>c\<close> on \<open>text\<close>.\<close>

definition embedding_result :: "env \<Rightarrow> nat \<Rightarrow> string \<Rightarrow> error + string" where
  "embedding_result e c text = fst (get_embedding (endpoint e c text) MAX_RETRIES)"

fun failures :: "(error + 'a) list \<Rightarrow> error list" where
  "failures [] = []"
| "failures (Inl err # rs) = err # failures rs"
| "failures (Inr _ # rs) = failures rs"

fun successes :: "(error + 'a) list \<Rightarrow> 'a list" where
  "successes [] = []"
| "successes (Inl _ # rs) = successes rs"
| "successes (Inr x # rs) = x # successes rs"

text \<open>
  \<open>await asyncio.gather(*tasks)\<close> for the tasks of one wave, whose calls are numbered from
  \<open>first\<close>. The tasks finish in the order of their completion times; the first exception
  to be raised is the one \<open>gather\<close> raises; otherwise \<open>gather\<close> returns, for the positions
  \<open>0, 1, ...\<close> in this order, the result recorded for that position.
\<close>

definition gather :: "env \<Rightarrow> nat \<Rightarrow> string list \<Rightarrow> error + string list" where
  "gather e first texts =
     (let tasks = zip [0..<length texts] texts;
          finished = sort_key (\<lambda>(p, text). latency e (first + p)) tasks;
          results = map (\<lambda>(p, text). (p, embedding_result e (first + p) text)) finished
      in case failures (map snd results) of
           err # _ \<Rightarrow> Inl err
         | [] \<Rightarrow>
             Inr (successes (concat (map (\<lambda>p. map snd (filter (\<lambda>(q, r). q = p) results))
                                       [0..<length texts]))))"

text \<open>
  The loop \<open>for (doc, idx, chunk), emb in zip(batch, embeddings)\<close> with its \<open>INSERT\<close>:
  \<open>mk_row\<close> builds the tuple of values, and raises when the document lacks a key; the
  statement raises when a value cannot be bound.
\<close>

fun insert_rows ::
  "(document \<Rightarrow> nat \<Rightarrow> string \<Rightarrow> string \<Rightarrow> error + row) \<Rightarrow> table \<Rightarrow> (segment \<times> string) list
    \<Rightarrow> world \<Rightarrow> (error + unit) \<times> world" where
  "insert_rows mk_row tbl [] w = (Inr (), w)"
| "insert_rows mk_row tbl (((doc, idx, chunk), emb) # rest) w =
     (case mk_row doc idx chunk emb of
        Inl err \<Rightarrow> (Inl err, w)
      | Inr r \<Rightarrow>
          (case execute_insert tbl r w of
             Inl err \<Rightarrow> (Inl err, w)
           | Inr w' \<Rightarrow> insert_rows mk_row tbl rest w'))"

text \<open>
  The loop \<open>for i in range(0, len(to_insert), CONCURRENT_REQUESTS)\<close> (lines 116 to 129 and
  151 to 163, the same code but for the table and the tuple of values), at the index
  \<open>i\<close>, with \<open>n\<close> for the step.
\<close>

function wave_loop ::
  "env \<Rightarrow> nat \<Rightarrow> (document \<Rightarrow> nat \<Rightarrow> string \<Rightarrow> string \<Rightarrow> error + row) \<Rightarrow> table \<Rightarrow> segment list
    \<Rightarrow> nat \<Rightarrow> world \<Rightarrow> (error + unit) \<times> world" where
  "wave_loop e n mk_row tbl to_insert i w =
     (if 0 < n \<and> i < length to_insert then
        (let batch = take n (drop i to_insert);
             texts = map (\<lambda>(doc, idx, chunk). chunk) batch;
             w1 = w\<lparr>calls := calls w + length batch, log := log w @ [Gather (calls w) texts]\<rparr>
         in case gather e (calls w) texts of
              Inl err \<Rightarrow> (Inl err, w1)
            | Inr embeddings \<Rightarrow>
                (case insert_rows mk_row tbl (zip batch embeddings) w1 of
                   (Inl err, w2) \<Rightarrow> (Inl err, w2)
                 | (Inr u, w2) \<Rightarrow> wave_loop e n mk_row tbl to_insert (i + n) (commit w2)))
      else (Inr (), w))"
  by pat_completeness auto
termination
  by (relation "measure (\<lambda>(e, n, mk_row, tbl, to_insert, i, w). length to_insert - i)") auto

declare wave_loop.simps [simp del]

text \<open>\<open>range\<close> raises \<open>ValueError\<close> for the step 0, before the first wave.\<close>

definition process_waves ::
  "env \<Rightarrow> nat \<Rightarrow> (document \<Rightarrow> nat \<Rightarrow> string \<Rightarrow> string \<Rightarrow> error + row) \<Rightarrow> table \<Rightarrow> segment list
    \<Rightarrow> world \<Rightarrow> (error + unit) \<times> world" where
  "process_waves e n mk_row tbl to_insert w =
     (if n = 0 then (Inl Value_error, w) else wave_loop e n mk_row tbl to_insert 0 w)"

section \<open>The ingestion of the two corpora\<close>

text \<open>
  The tuple of values of the \<open>INSERT\<close> into \<open>discourse_chunks\<close> (lines 124 to 127); its
  components are evaluated from left to right, so the first missing key is the one raised.
\<close>

definition discourse_row :: "document \<Rightarrow> nat \<Rightarrow> string \<Rightarrow> string \<Rightarrow> error + row" where
  "discourse_row post idx chunk emb =
     (case lookup post ''post_id'' of Inl err \<Rightarrow> Inl err | Inr post_id \<Rightarrow>
      case lookup post ''topic_id'' of Inl err \<Rightarrow> Inl err | Inr topic_id \<Rightarrow>
      case lookup post ''post_number'' of Inl err \<Rightarrow> Inl err | Inr post_number \<Rightarrow>
      case lookup post ''author'' of Inl err \<Rightarrow> Inl err | Inr author \<Rightarrow>
      case lookup post ''created_at'' of Inl err \<Rightarrow> Inl err | Inr created_at \<Rightarrow>
      case lookup post ''url'' of Inl err \<Rightarrow> Inl err | Inr url \<Rightarrow>
        Inr [post_id, topic_id, get_default post ''topic_title'' (JStr []), post_number, author,
             created_at, get_default post ''like_count'' (JInt 0), JInt (int idx), JStr chunk, url,
             JStr emb])"

text \<open>The tuple of values of the \<open>INSERT\<close> into \<open>markdown_chunks\<close> (line 160).\<close>

definition markdown_row :: "document \<Rightarrow> nat \<Rightarrow> string \<Rightarrow> string \<Rightarrow> error + row" where
  "markdown_row meta idx chunk emb =
     (case lookup meta ''title'' of Inl err \<Rightarrow> Inl err | Inr title \<Rightarrow>
      case lookup meta ''original_url'' of Inl err \<Rightarrow> Inl err | Inr original_url \<Rightarrow>
      case lookup meta ''downloaded_at'' of Inl err \<Rightarrow> Inl err | Inr downloaded_at \<Rightarrow>
        Inr [title, original_url, downloaded_at, JInt (int idx), JStr chunk, JStr emb])"

text \<open>\<open>for idx, chunk in enumerate(chunks): to_insert.append((doc, idx, chunk))\<close>\<close>

definition segments_of :: "document \<Rightarrow> string list \<Rightarrow> segment list" where
  "segments_of doc chunks = map (\<lambda>(idx, chunk). (doc, idx, chunk)) (enumerate 0 chunks)"

text \<open>
  The loop over the posts (lines 111 to 114). \<open>post["content"]\<close> raises \<open>KeyError\<close> when the
  key is missing, and \<open>.strip()\<close> raises \<open>AttributeError\<close> on a value that is not a string.
  \<open>None\<close> is a chunker that does not return.
\<close>

fun collect_discourse :: "document list \<Rightarrow> segment list \<Rightarrow> (error + segment list) option" where
  "collect_discourse [] to_insert = Some (Inr to_insert)"
| "collect_discourse (post # posts) to_insert =
     (case lookup post ''content'' of
        Inl err \<Rightarrow> Some (Inl err)
      | Inr (JStr content) \<Rightarrow>
          (case chunk_text content CHUNK_SIZE CHUNK_OVERLAP of
             None \<Rightarrow> None
           | Some chunks \<Rightarrow> collect_discourse posts (to_insert @ segments_of post chunks))
      | Inr _ \<Rightarrow> Some (Inl Attribute_error))"

text \<open>
  \<open>process_discourse\<close> (lines 103 to 129): a file that does not exist is passed over with a
  warning; one that exists is opened and parsed, which raises when it cannot be read.
\<close>

definition process_discourse :: "env \<Rightarrow> world \<Rightarrow> ((error + unit) \<times> world) option" where
  "process_discourse e w =
     (case discourse_json e of
        Absent \<Rightarrow> Some (Inr (), w)
      | Unreadable \<Rightarrow> Some (Inl Read_error, w\<lparr>log := log w @ [Read_file DISCOURSE_JSON]\<rparr>)
      | Holds posts \<Rightarrow>
          (let w1 = w\<lparr>log := log w @ [Read_file DISCOURSE_JSON]\<rparr>
           in case collect_discourse posts [] of
                None \<Rightarrow> None
              | Some (Inl err) \<Rightarrow> Some (Inl err, w1)
              | Some (Inr to_insert) \<Rightarrow>
                  Some (process_waves e CONCURRENT_REQUESTS discourse_row Discourse_chunks
                          to_insert w1)))"

text \<open>
  \<open>re.sub(r'^---.*?---\s*', '', content, flags=re.DOTALL)\<close>: a text that starts with three
  dashes loses everything up to the next three dashes, and the whitespace after them; a
  text without such a header is unchanged. \<open>after_dashes s\<close> is what follows the first
  \<open>---\<close> of \<open>s\<close>.
\<close>

fun after_dashes :: "string \<Rightarrow> string option" where
  "after_dashes [] = None"
| "after_dashes (c # s) =
     (if take 3 (c # s) = ''---'' then Some (drop 3 (c # s)) else after_dashes s)"

definition strip_front_matter :: "string \<Rightarrow> string" where
  "strip_front_matter content =
     (if take 3 content = ''---'' then
        (case after_dashes (drop 3 content) of
           None \<Rightarrow> content
         | Some rest \<Rightarrow> dropWhile py_isspace rest)
      else content)"

text \<open>
  The loop over the metadata entries (lines 139 to 149), with the list of the files opened
  so far. A listed file whose path does not exist is passed over by \<open>continue\<close>; a path
  that exists is opened and read, which raises when it cannot be read; \<open>os.path.join\<close>
  raises \<open>TypeError\<close> on a file name that is not a string.
\<close>

fun collect_markdown ::
  "env \<Rightarrow> document list \<Rightarrow> segment list \<Rightarrow> string list
    \<Rightarrow> ((error + segment list) \<times> string list) option" where
  "collect_markdown e [] to_insert opened = Some (Inr to_insert, opened)"
| "collect_markdown e (meta # metadata) to_insert opened =
     (case lookup meta ''filename'' of
        Inl err \<Rightarrow> Some (Inl err, opened)
      | Inr (JStr filename) \<Rightarrow>
          (case markdown_files e filename of
             Absent \<Rightarrow> collect_markdown e metadata to_insert opened
           | Unreadable \<Rightarrow> Some (Inl Read_error, opened @ [filename])
           | Holds content \<Rightarrow>
               (case chunk_text (strip_front_matter content) CHUNK_SIZE CHUNK_OVERLAP of
                  None \<Rightarrow> None
                | Some chunks \<Rightarrow>
                    collect_markdown e metadata (to_insert @ segments_of meta chunks)
                      (opened @ [filename])))
      | Inr _ \<Rightarrow> Some (Inl Type_error, opened))"

text \<open>\<open>process_markdown\<close> (lines 131 to 163).\<close>

definition process_markdown :: "env \<Rightarrow> world \<Rightarrow> ((error + unit) \<times> world) option" where
  "process_markdown e w =
     (case metadata_json e of
        Absent \<Rightarrow> Some (Inr (), w)
      | Unreadable \<Rightarrow> Some (Inl Read_error, w\<lparr>log := log w @ [Read_file METADATA_JSON]\<rparr>)
      | Holds metadata \<Rightarrow>
          (case collect_markdown e metadata [] [] of
             None \<Rightarrow> None
           | Some (res, opened) \<Rightarrow>
               (let w1 = w\<lparr>log := log w @ Read_file METADATA_JSON
                              # map (\<lambda>filename. Read_file (MARKDOWN_DIR @ ''/'' @ filename)) opened\<rparr>
                in case res of
                     Inl err \<Rightarrow> Some (Inl err, w1)
                   | Inr to_insert \<Rightarrow>
                       Some (process_waves e CONCURRENT_REQUESTS markdown_row Markdown_chunks
                               to_insert w1))))"

section \<open>The run\<close>

text \<open>
  \<open>main\<close> (lines 165 to 176): an existing store file is removed, a new one is created with
  the two empty tables, and the two corpora are processed one after the other; an
  exception of the first ends the run.
\<close>

definition main :: "env \<Rightarrow> world \<Rightarrow> ((error + unit) \<times> world) option" where
  "main e w =
     (let w1 = (if db_file w \<noteq> None then w\<lparr>db_file := None, log := log w @ [Removed_db]\<rparr> else w);
          w2 = w1\<lparr>db_file := Some [], uncommitted := [], log := log w1 @ [Created_db]\<rparr>
      in case process_discourse e w2 of
           None \<Rightarrow> None
         | Some (Inl err, w3) \<Rightarrow> Some (Inl err, w3)
         | Some (Inr u, w3) \<Rightarrow> process_markdown e w3)"

text \<open>
  The module run as a script: the check of the API key at import time (lines 30 to 32),
  where a missing and an empty key are both refused, then \<open>asyncio.run(main())\<close>.
\<close>

definition run :: "env \<Rightarrow> world \<Rightarrow> ((error + unit) \<times> world) option" where
  "run e w =
     (case api_key e of
        None \<Rightarrow> Some (Inl Api_key_not_set, w)
      | Some key \<Rightarrow> if key = [] then Some (Inl Api_key_not_set, w) else main e w)"

section \<open>Notions used to state the properties\<close>

text \<open>The results of the calls of a wave, listed by position.\<close>

definition in_order :: "env \<Rightarrow> nat \<Rightarrow> string list \<Rightarrow> (error + string) list" where
  "in_order e first texts =
     map (\<lambda>p. embedding_result e (first + p) (texts ! p)) [0..<length texts]"

text \<open>The row that the \<open>INSERT\<close> of a segment stores, given the embedding.\<close>

definition stored_row ::
  "(document \<Rightarrow> nat \<Rightarrow> string \<Rightarrow> string \<Rightarrow> error + row) \<Rightarrow> document \<Rightarrow> nat \<Rightarrow> string \<Rightarrow> string
    \<Rightarrow> error + row" where
  "stored_row mk_row doc idx chunk emb =
     (case mk_row doc idx chunk emb of
        Inl err \<Rightarrow> Inl err
      | Inr r \<Rightarrow> (case row_bind_error r of Some err \<Rightarrow> Inl err | None \<Rightarrow> Inr r))"

text \<open>
  The row that belongs to a segment whose call has the number \<open>c\<close>: the embedding that
  this very call returns, put into the tuple of values of this very segment and stored.
\<close>

definition segment_row ::
  "env \<Rightarrow> (document \<Rightarrow> nat \<Rightarrow> string \<Rightarrow> string \<Rightarrow> error + row) \<Rightarrow> nat \<Rightarrow> segment \<Rightarrow> error + row" where
  "segment_row e mk_row c seg =
     (case seg of (doc, idx, chunk) \<Rightarrow>
        (case embedding_result e c chunk of
           Inl err \<Rightarrow> Inl err
         | Inr emb \<Rightarrow> stored_row mk_row doc idx chunk emb))"

definition segment_rows ::
  "env \<Rightarrow> (document \<Rightarrow> nat \<Rightarrow> string \<Rightarrow> string \<Rightarrow> error + row) \<Rightarrow> nat \<Rightarrow> segment list
    \<Rightarrow> (error + row) list" where
  "segment_rows e mk_row first segs =
     map (\<lambda>p. segment_row e mk_row (first + p) (segs ! p)) [0..<length segs]"

text \<open>The waves of a log: the texts of each \<open>Gather\<close>, in order.\<close>

fun gathered :: "event list \<Rightarrow> string list list" where
  "gathered [] = []"
| "gathered (Gather c texts # evs) = texts # gathered evs"
| "gathered (ev # evs) = gathered evs"

text \<open>
  The effects of processing the given texts in waves of \<open>n\<close>, with the calls numbered from
  \<open>first\<close> and with the given rows: for each wave its dispatch, the inserts of its rows and
  the commit.
\<close>

function waves_log :: "table \<Rightarrow> nat \<Rightarrow> nat \<Rightarrow> string list \<Rightarrow> row list \<Rightarrow> event list" where
  "waves_log tbl n first texts rows =
     (if 0 < n \<and> texts \<noteq> [] then
        Gather first (take n texts) # map (Insert tbl) (take n rows) @ [Commit]
          @ waves_log tbl n (first + n) (drop n texts) (drop n rows)
      else [])"
  by pat_completeness auto
termination
  by (relation "measure (\<lambda>(tbl, n, first, texts, rows). length texts)") auto

declare waves_log.simps [simp del]

text \<open>
  The world after the given texts were processed in waves of \<open>n\<close> with the given rows:
  every row committed, nothing left to commit, one call counted for each text.
\<close>

definition after_waves :: "table \<Rightarrow> nat \<Rightarrow> string list \<Rightarrow> row list \<Rightarrow> world \<Rightarrow> world" where
  "after_waves tbl n texts rows w =
     w\<lparr>db_file := (if texts = [] then db_file w
                     else Some (committed_rows w @ uncommitted w @ map (Pair tbl) rows)),
       uncommitted := (if texts = [] then uncommitted w else []),
       calls := calls w + length texts,
       log := log w @ waves_log tbl n (calls w) texts rows\<rparr>"


section \<open>Example inputs\<close>

text \<open>
  A forum post with every field, five such posts, and an environment whose endpoint answers
  every request with an embedding named after the text, except those of the call number 4
  (the fifth segment), which all get the status 500. Calls complete in the reverse of the
  order in which they were started.
\<close>

definition example_post :: "int \<Rightarrow> string \<Rightarrow> document" where
  "example_post k body =
     [''post_id'' \<mapsto> JInt k, ''topic_id'' \<mapsto> JInt 7, ''post_number'' \<mapsto> JInt k,
      ''author'' \<mapsto> JStr ''ann'', ''created_at'' \<mapsto> JStr ''2025'', ''url'' \<mapsto> JStr ''u'',
      ''content'' \<mapsto> JStr body]"

definition example_posts :: "document list" where
  "example_posts =
     [example_post 1 ''one'', example_post 2 ''two'', example_post 3 ''three'',
      example_post 4 ''four'', example_post 5 ''five'']"

definition example_env :: env where
  "example_env =
     \<lparr>api_key = Some ''key'', discourse_json = Holds example_posts, metadata_json = Holds [],
      markdown_files = (\<lambda>filename. Absent),
      endpoint = (\<lambda>c text attempt.
         if c = 4 then Responded (Response 500 None)
         else Responded (Response 200 (Some (''e-'' @ text)))),
      latency = (\<lambda>c. 9 - c)\<rparr>"

text \<open>
  The segments of these posts, one for each post, and the rows that belong to them when the
  endpoint answers.
\<close>

definition example_segment :: "int \<Rightarrow> string \<Rightarrow> segment" where
  "example_segment k body = (example_post k body, 0, body)"

definition example_segments :: "segment list" where
  "example_segments =
     [example_segment 1 ''one'', example_segment 2 ''two'', example_segment 3 ''three'',
      example_segment 4 ''four'', example_segment 5 ''five'']"

definition example_row :: "int \<Rightarrow> string \<Rightarrow> row" where
  "example_row k body =
     [JInt k, JInt 7, JStr [], JInt k, JStr ''ann'', JStr ''2025'', JInt 0, JInt 0, JStr body,
      JStr ''u'', JStr (''e-'' @ body)]"

text \<open>The same environment with an endpoint that always answers.\<close>

definition good_env :: env where
  "good_env =
     example_env\<lparr>endpoint := (\<lambda>c text attempt. Responded (Response 200 (Some (''e-'' @ text))))\<rparr>"

text \<open>A listed page, and three listed pages of which only the first is in the markdown directory.\<close>

definition example_page :: "string \<Rightarrow> document" where
  "example_page name =
     [''filename'' \<mapsto> JStr name, ''title'' \<mapsto> JStr ''T'', ''original_url'' \<mapsto> JStr ''v'',
      ''downloaded_at'' \<mapsto> JStr ''2025'']"

definition example_pages :: "document list" where
  "example_pages = [example_page ''a.md'', example_page ''b.md'']"

definition pages_env :: env where
  "pages_env =
     good_env\<lparr>metadata_json := Holds example_pages,
              markdown_files := (\<lambda>filename. if filename = ''a.md'' then Holds ''text'' else Absent)\<rparr>"

text \<open>
  One post and one page, with an endpoint that answers the call of the post and refuses
  the call of the page.
\<close>

definition page_failure_env :: env where
  "page_failure_env =
     \<lparr>api_key = Some ''key'', discourse_json = Holds [example_post 1 ''one''],
      metadata_json = Holds [example_page ''a.md''],
      markdown_files = (\<lambda>filename. if filename = ''a.md'' then Holds ''text'' else Absent),
      endpoint = (\<lambda>c text attempt.
         if c = 1 then Responded (Response 500 None)
         else Responded (Response 200 (Some (''e-'' @ text)))),
      latency = (\<lambda>c. 0)\<rparr>"

text \<open>The segment of the page \<open>a.md\<close>, whose content is the one chunk \<open>text\<close>.\<close>

definition page_segment :: segment where
  "page_segment = (example_page ''a.md'', 0, ''text'')"

text \<open>A world in which a store file of an earlier run exists.\<close>

definition old_store :: world where
  "old_store = \<lparr>db_file = Some [(Markdown_chunks, [JInt 0])], uncommitted = [], calls = 0, log = []\<rparr>"

section \<open>Properties of the chunker\<close>

lemma py_slice_nonneg:
  "0 \<le> i \<Longrightarrow> 0 \<le> j \<Longrightarrow> py_slice xs i j = take (nat j - nat i) (drop (nat i) xs)"
  by (auto simp: py_slice_def slice_bound_def Let_def min_def)

lemma chunk_loop_terminates:
  assumes "overlap < chunk_size"
  shows "\<exists>cs. chunk_loop text chunk_size overlap start chunks = Some cs"
proof (induction "nat (int (length text) - start)" arbitrary: start chunks rule: less_induct)
  case less
  show ?case
  proof (cases "start < int (length text)")
    case False
    then show ?thesis by (subst chunk_loop.simps) simp
  next
    case True
    show ?thesis
    proof (cases "min (start + chunk_size) (int (length text)) = int (length text)")
      case True
      with \<open>start < int (length text)\<close> show ?thesis
        by (subst chunk_loop.simps) (simp add: Let_def)
    next
      case False
      from assms True
      have "nat (int (length text) - (start + (chunk_size - overlap))) < nat (int (length text) - start)"
        by linarith
      from less [OF this] obtain cs where
        "chunk_loop text chunk_size overlap (start + (chunk_size - overlap))
           (chunks @ [py_slice text start (min (start + chunk_size) (int (length text)))]) = Some cs"
        by blast
      with True False show ?thesis
        by (subst chunk_loop.simps) (simp add: Let_def)
    qed
  qed
qed

lemma ceiling_step:
  fixes m d :: int
  assumes "0 < d"
  shows "\<lceil>real_of_int m / real_of_int d\<rceil> = 1 + \<lceil>real_of_int (m - d) / real_of_int d\<rceil>"
proof -
  have "real_of_int (m - d) / real_of_int d = real_of_int m / real_of_int d - 1"
    using assms by (simp add: diff_divide_distrib)
  then show ?thesis by simp
qed

lemma ceiling_one:
  fixes m d :: int
  assumes "0 < m" "m \<le> d"
  shows "\<lceil>real_of_int m / real_of_int d\<rceil> = 1"
proof (rule ceiling_unique)
  show "real_of_int 1 - 1 < real_of_int m / real_of_int d"
    using assms by simp
  show "real_of_int m / real_of_int d \<le> real_of_int 1"
    using assms by simp
qed

lemma chunk_loop_last:
  assumes "0 < chunk_size" "s < length text" "int (length text) \<le> int s + chunk_size"
  shows "chunk_loop text chunk_size overlap (int s) chunks = Some (chunks @ [drop s text])"
proof -
  have "min (int s + chunk_size) (int (length text)) = int (length text)"
    using assms by simp
  moreover have "py_slice text (int s) (int (length text)) = drop s text"
    by (simp add: py_slice_nonneg)
  ultimately show ?thesis
    using assms by (subst chunk_loop.simps) (simp add: Let_def)
qed

lemma chunk_loop_next:
  assumes "0 < chunk_size" "int s + chunk_size < int (length text)"
  shows "chunk_loop text chunk_size overlap (int s) chunks =
         chunk_loop text chunk_size overlap (int s + (chunk_size - overlap))
           (chunks @ [take (nat chunk_size) (drop s text)])"
proof -
  have e: "min (int s + chunk_size) (int (length text)) = int s + chunk_size"
    using assms by simp
  have "py_slice text (int s) (int s + chunk_size) = take (nat chunk_size) (drop s text)"
  proof -
    have "nat (int s + chunk_size) - nat (int s) = nat chunk_size"
      using assms by linarith
    then show ?thesis using assms by (simp add: py_slice_nonneg)
  qed
  with e assms show ?thesis
    by (subst chunk_loop.simps) (simp add: Let_def)
qed

lemma chunk_loop_windows:
  assumes "0 \<le> overlap" "overlap < chunk_size" "s < length text"
  shows "\<exists>rest. chunk_loop text chunk_size overlap (int s) chunks
             = Some (chunks @ take (nat chunk_size) (drop s text) # rest)
     \<and> take (nat chunk_size) (drop s text) @ concat (map (drop (nat overlap)) rest) = drop s text
     \<and> (int (length text) - int s \<le> chunk_size \<longrightarrow> rest = [])
     \<and> (overlap < int (length text) - int s \<longrightarrow>
          int (Suc (length rest))
            = \<lceil>real_of_int (int (length text) - int s - overlap) / real_of_int (chunk_size - overlap)\<rceil>)"
  using assms(3)
proof (induction "length text - s" arbitrary: s chunks rule: less_induct)
  case less
  have S: "0 < chunk_size" using assms by simp
  show ?case
  proof (cases "int (length text) \<le> int s + chunk_size")
    case True
    then have full: "take (nat chunk_size) (drop s text) = drop s text"
      by simp
    have run: "chunk_loop text chunk_size overlap (int s) chunks = Some (chunks @ [drop s text])"
      using chunk_loop_last [OF S less.prems True] .
    have cnt: "overlap < int (length text) - int s \<longrightarrow>
        \<lceil>real_of_int (int (length text) - int s - overlap) / real_of_int (chunk_size - overlap)\<rceil> = 1"
    proof
      assume "overlap < int (length text) - int s"
      then show "\<lceil>real_of_int (int (length text) - int s - overlap) / real_of_int (chunk_size - overlap)\<rceil> = 1"
        using True by (intro ceiling_one) linarith+
    qed
    show ?thesis
      using run full cnt by (intro exI [of _ "[]"]) simp
  next
    case False
    define s' where "s' = s + nat (chunk_size - overlap)"
    have s'_int: "int s' = int s + (chunk_size - overlap)"
      using assms by (simp add: s'_def)
    have s'_lt: "s' < length text" and s'_ov: "int s' + overlap < int (length text)"
      using False assms s'_int by linarith+
    have dec: "length text - s' < length text - s"
      using s'_lt assms by (simp add: s'_def)
    from less.hyps [OF dec s'_lt, of "chunks @ [take (nat chunk_size) (drop s text)]"]
    obtain rest' where
      run': "chunk_loop text chunk_size overlap (int s') (chunks @ [take (nat chunk_size) (drop s text)])
             = Some ((chunks @ [take (nat chunk_size) (drop s text)])
                       @ take (nat chunk_size) (drop s' text) # rest')"
      and join': "take (nat chunk_size) (drop s' text) @ concat (map (drop (nat overlap)) rest') = drop s' text"
      and cnt': "overlap < int (length text) - int s' \<longrightarrow>
          int (Suc (length rest'))
            = \<lceil>real_of_int (int (length text) - int s' - overlap) / real_of_int (chunk_size - overlap)\<rceil>"
      by blast
    let ?rest = "take (nat chunk_size) (drop s' text) # rest'"
    have run: "chunk_loop text chunk_size overlap (int s) chunks
         = Some (chunks @ take (nat chunk_size) (drop s text) # ?rest)"
    proof -
      have "int s + chunk_size < int (length text)"
        using False by simp
      from chunk_loop_next [OF S this] run' s'_int show ?thesis
        by simp
    qed
    have len': "nat overlap \<le> length (take (nat chunk_size) (drop s' text))"
      using s'_ov assms by simp linarith
    have "drop (nat overlap) (take (nat chunk_size) (drop s' text)) @ concat (map (drop (nat overlap)) rest')
          = drop (nat overlap) (take (nat chunk_size) (drop s' text) @ concat (map (drop (nat overlap)) rest'))"
      using len' by simp
    also have "\<dots> = drop (nat overlap) (drop s' text)"
      by (simp only: join')
    also have "\<dots> = drop (nat chunk_size) (drop s text)"
    proof -
      have "nat overlap + s' = nat chunk_size + s"
        using assms by (simp add: s'_def)
      then show ?thesis by (simp add: add.commute)
    qed
    finally have "take (nat chunk_size) (drop s text) @ concat (map (drop (nat overlap)) ?rest)
                  = take (nat chunk_size) (drop s text) @ drop (nat chunk_size) (drop s text)"
      by simp
    then have join: "take (nat chunk_size) (drop s text) @ concat (map (drop (nat overlap)) ?rest) = drop s text"
      by (simp only: append_take_drop_id)
    have "int (Suc (length ?rest)) = 1 + int (Suc (length rest'))"
      by simp
    also have "\<dots> = 1 + \<lceil>real_of_int (int (length text) - int s' - overlap) / real_of_int (chunk_size - overlap)\<rceil>"
      using cnt' s'_ov by simp
    also have "int (length text) - int s' - overlap = (int (length text) - int s - overlap) - (chunk_size - overlap)"
      using s'_int by simp
    also have "1 + \<lceil>real_of_int (int (length text) - int s - overlap - (chunk_size - overlap))
                       / real_of_int (chunk_size - overlap)\<rceil>
               = \<lceil>real_of_int (int (length text) - int s - overlap) / real_of_int (chunk_size - overlap)\<rceil>"
      using ceiling_step [of "chunk_size - overlap" "int (length text) - int s - overlap"] assms by simp
    finally have cnt: "int (Suc (length ?rest))
        = \<lceil>real_of_int (int (length text) - int s - overlap) / real_of_int (chunk_size - overlap)\<rceil>" .
    show ?thesis
      using run join cnt False by (intro exI [of _ ?rest]) simp
  qed
qed

lemma chunk_loop_stalls:
  assumes "chunk_loop text chunk_size overlap start chunks = Some y"
  shows "\<not> (chunk_size \<le> overlap \<and> chunk_size < int (length text) \<and> start \<le> 0 \<and> text \<noteq> [])"
proof (rule chunk_loop.raw_induct
    [where P = "\<lambda>text chunk_size overlap start chunks y.
         \<not> (chunk_size \<le> overlap \<and> chunk_size < int (length text) \<and> start \<le> 0 \<and> text \<noteq> [])",
     OF _ assms])
  fix loop :: "string \<Rightarrow> int \<Rightarrow> int \<Rightarrow> int \<Rightarrow> string list \<Rightarrow> string list option"
  fix text' chunk_size' overlap' start' chunks' y'
  assume IH: "\<And>text chunk_size overlap start chunks y.
      loop text chunk_size overlap start chunks = Some y \<Longrightarrow>
      \<not> (chunk_size \<le> overlap \<and> chunk_size < int (length text) \<and> start \<le> 0 \<and> text \<noteq> [])"
  assume body: "(if start' < int (length text')
      then let end' = min (start' + chunk_size') (int (length text'));
               chunk = py_slice text' start' end'; chunks'' = chunks' @ [chunk]
           in if end' = int (length text') then Some chunks''
              else loop text' chunk_size' overlap' (start' + (chunk_size' - overlap')) chunks''
      else Some chunks') = Some y'"
  show "\<not> (chunk_size' \<le> overlap' \<and> chunk_size' < int (length text') \<and> start' \<le> 0 \<and> text' \<noteq> [])"
  proof
    assume a: "chunk_size' \<le> overlap' \<and> chunk_size' < int (length text') \<and> start' \<le> 0 \<and> text' \<noteq> []"
    then have n: "0 < int (length text')"
      by simp
    from a n have "start' < int (length text')"
      by linarith
    moreover from a n have "min (start' + chunk_size') (int (length text')) = start' + chunk_size'"
      and "start' + chunk_size' \<noteq> int (length text')"
      by linarith+
    moreover note body
    ultimately have "loop text' chunk_size' overlap' (start' + (chunk_size' - overlap'))
        (chunks' @ [py_slice text' start' (start' + chunk_size')]) = Some y'"
      by (simp add: Let_def)
    from IH [OF this] a show False
      by simp
  qed
qed

lemma chunk_loop_diverges:
  assumes "chunk_size \<le> overlap" "chunk_size < int (length text)" "start \<le> 0" "text \<noteq> []"
  shows "chunk_loop text chunk_size overlap start chunks = None"
  using chunk_loop_stalls [of "text" chunk_size overlap start chunks] assms
  by (cases "chunk_loop text chunk_size overlap start chunks") auto

lemma chunk_text_windows:
  assumes "0 \<le> overlap" "overlap < chunk_size" "strip text \<noteq> []"
  shows "\<exists>rest. chunk_text text chunk_size overlap
             = Some (take (nat chunk_size) (strip text) # rest)
     \<and> take (nat chunk_size) (strip text) @ concat (map (drop (nat overlap)) rest) = strip text
     \<and> (int (length (strip text)) \<le> chunk_size \<longrightarrow> rest = [])
     \<and> (overlap < int (length (strip text)) \<longrightarrow>
          int (Suc (length rest))
            = \<lceil>real_of_int (int (length (strip text)) - overlap) / real_of_int (chunk_size - overlap)\<rceil>)"
proof -
  have "0 < length (strip text)"
    using assms(3) by simp
  from chunk_loop_windows [OF assms(1,2) this, of "[]"] assms(3) show ?thesis
    by (simp add: chunk_text_def Let_def)
qed

text \<open>
  Claim C1. For chunk size \<open>S\<close> and overlap \<open>O\<close> with \<open>0 \<le> O < S\<close>, \<open>chunk_text\<close> returns,
  and its chunks, joined in index order with the first \<open>O\<close> characters of every chunk
  after the first removed, are the whitespace-trimmed text. The statement holds for the
  empty and the whitespace-only text too, where there is no chunk and the trimmed text
  is empty.
\<close>

theorem chunk_text_reconstructs:
  assumes "0 \<le> overlap" and "overlap < chunk_size"
  shows "\<exists>cs. chunk_text text chunk_size overlap = Some cs \<and> join_chunks overlap cs = strip text"
proof (cases "strip text = []")
  case True
  then show ?thesis
    by (simp add: chunk_text_def join_chunks_def)
next
  case False
  from chunk_text_windows [OF assms False] show ?thesis
    by (auto simp: join_chunks_def)
qed

text \<open>An instance of C1: ten letters between blanks, size 4, overlap 1.\<close>

theorem chunk_text_reconstructs_witness:
  "chunk_text ''  abcdefghij '' 4 1 = Some [''abcd'', ''defg'', ''ghij'']
   \<and> join_chunks 1 [''abcd'', ''defg'', ''ghij''] = strip ''  abcdefghij ''"
proof -
  have run: "chunk_text ''  abcdefghij '' 4 1 = Some [''abcd'', ''defg'', ''ghij'']"
    by code_simp
  from chunk_text_reconstructs [of 1 4 "''  abcdefghij ''"] obtain cs
    where "chunk_text ''  abcdefghij '' 4 1 = Some cs"
      and "join_chunks 1 cs = strip ''  abcdefghij ''"
    by auto
  with run show ?thesis by simp
qed

text \<open>
  Claim C2. When the trimmed text is longer than the overlap \<open>O\<close> and \<open>0 \<le> O < S\<close>, the
  number of chunks is the ceiling of \<open>(len - O) / (S - O)\<close>, and it is one as soon as the
  trimmed text has at most \<open>S\<close> characters.
\<close>

theorem chunk_text_count:
  assumes "0 \<le> overlap" and "overlap < chunk_size"
    and "overlap < int (length (strip text))"
  shows "\<exists>cs. chunk_text text chunk_size overlap = Some cs
     \<and> int (length cs)
         = \<lceil>real_of_int (int (length (strip text)) - overlap) / real_of_int (chunk_size - overlap)\<rceil>
     \<and> (int (length (strip text)) \<le> chunk_size \<longrightarrow> length cs = 1)"
proof -
  have "strip text \<noteq> []"
    using assms(1,3) by auto
  from chunk_text_windows [OF assms(1,2) this] assms(3) show ?thesis
    by auto
qed

text \<open>An instance of C2: length 10, size 4, overlap 1 give the ceiling of \<open>9 / 3\<close>, three chunks.\<close>

theorem chunk_text_count_witness:
  "chunk_text ''  abcdefghij '' 4 1 = Some [''abcd'', ''defg'', ''ghij'']
   \<and> int (length [''abcd'', ''defg'', ''ghij''])
       = \<lceil>real_of_int (int (length (strip ''  abcdefghij '')) - 1) / real_of_int (4 - 1)\<rceil>"
proof -
  have run: "chunk_text ''  abcdefghij '' 4 1 = Some [''abcd'', ''defg'', ''ghij'']"
    by code_simp
  have "(1::int) < int (length (strip ''  abcdefghij ''))"
    by (simp add: strip_def py_isspace_def)
  from chunk_text_count [of 1 4 "''  abcdefghij ''", OF _ _ this] run show ?thesis
    by auto
qed

text \<open>
  Claim C3 says that a call with \<open>overlap \<ge> size\<close> signals an error. \<open>chunk_text\<close> has no
  such check and no error result at all: with size 5 and overlap 7 the two-letter text comes
  back as one chunk.
\<close>

theorem chunk_text_no_validation_counterexample:
  "(5::int) \<le> 7 \<and> chunk_text ''ab'' 5 7 = Some [''ab'']"
  by code_simp

text \<open>
  Claim C3, as the code behaves. With \<open>overlap \<ge> size\<close> nothing is validated: a text that
  trims to nothing gives no chunk, a trimmed text of at most \<open>size\<close> characters is returned
  as its single chunk, and on any longer text the loop never ends, since the start offset
  no longer advances.
\<close>

theorem chunk_text_overlap_ge_size:
  assumes "chunk_size \<le> overlap"
  shows "chunk_text text chunk_size overlap =
     (if strip text = [] then Some []
      else if int (length (strip text)) \<le> chunk_size then Some [strip text]
      else None)"
proof (cases "strip text = []")
  case True
  then show ?thesis by (simp add: chunk_text_def)
next
  case False
  show ?thesis
  proof (cases "int (length (strip text)) \<le> chunk_size")
    case True
    from False have n: "0 < length (strip text)"
      by simp
    with True have "0 < chunk_size"
      by linarith
    from chunk_loop_last [OF this n, of overlap "[]"] True False show ?thesis
      by (simp add: chunk_text_def)
  next
    case long: False
    then have "chunk_size < int (length (strip text))" by simp
    from chunk_loop_diverges [OF assms this _ False, of 0 "[]"] long False show ?thesis
      by (simp add: chunk_text_def)
  qed
qed

text \<open>Instances of the amended C3: a stalled loop, and a short text returned whole.\<close>

theorem chunk_text_overlap_ge_size_witness:
  "(4::int) \<le> 4 \<and> chunk_text ''abcdef'' 4 4 = None \<and> chunk_text ''abcd'' 4 6 = Some [''abcd'']"
  using chunk_text_overlap_ge_size [of 4 4 "''abcdef''"] chunk_text_overlap_ge_size [of 4 6 "''abcd''"]
  by (simp add: strip_def py_isspace_def)

text \<open>
  Claim C10. With \<open>chunk_size > 0\<close> and \<open>0 \<le> overlap < chunk_size\<close> the call returns, and so
  does the loop from every start offset and every list of chunks collected so far: an
  iteration either ends the loop or moves the start by \<open>chunk_size - overlap > 0\<close>
  towards the length of the text.
\<close>

theorem chunk_text_terminates:
  assumes "0 < chunk_size" and "0 \<le> overlap" and "overlap < chunk_size"
  shows "(\<exists>cs. chunk_text text chunk_size overlap = Some cs)
     \<and> (\<forall>t start chunks. \<exists>cs. chunk_loop t chunk_size overlap start chunks = Some cs)"
  using chunk_loop_terminates [OF assms(3)] by (simp add: chunk_text_def Let_def)

text \<open>An instance of C10 at the configured size 500 and overlap 100.\<close>

theorem chunk_text_terminates_witness:
  "(0::int) < 500 \<and> (0::int) \<le> 100 \<and> (100::int) < 500
   \<and> (\<exists>cs. chunk_text ''hello world'' 500 100 = Some cs)"
  using chunk_text_terminates [of 500 100 "''hello world''"] by simp

section \<open>Properties of the embedding client and of the start of a run\<close>

lemma attempt_loop_rate_limited:
  assumes "\<forall>k<m. \<exists>b. reply (a + k) = Responded (Response 429 b)"
    and "reply (a + m) = Responded (Response 200 (Some emb))"
  shows "attempt_loop reply a (Suc (m + r)) trace
         = (Inr emb, trace @ concat (map (\<lambda>k. [Post k, Sleep (2 ^ k)]) [a..<a + m]) @ [Post (a + m)])"
  using assms
proof (induction m arbitrary: a trace)
  case 0
  then show ?case by simp
next
  case (Suc m)
  from Suc.prems(1) obtain b where first: "reply a = Responded (Response 429 b)"
    by force
  have rest: "\<forall>k<m. \<exists>b. reply (Suc a + k) = Responded (Response 429 b)"
  proof (intro allI impI)
    fix k assume "k < m"
    then have "Suc k < Suc m" by simp
    from Suc.prems(1) [rule_format, OF this] show "\<exists>b. reply (Suc a + k) = Responded (Response 429 b)"
      by simp
  qed
  have last: "reply (Suc a + m) = Responded (Response 200 (Some emb))"
    using Suc.prems(2) by simp
  have "attempt_loop reply a (Suc (Suc m + r)) trace
        = attempt_loop reply (Suc a) (Suc (m + r)) (trace @ [Post a, Sleep (2 ^ a)])"
    using first by simp
  also have "\<dots> = (Inr emb, (trace @ [Post a, Sleep (2 ^ a)])
        @ concat (map (\<lambda>k. [Post k, Sleep (2 ^ k)]) [Suc a..<Suc a + m]) @ [Post (Suc a + m)])"
    by (rule Suc.IH [OF rest last])
  finally show ?case
    by (simp add: upt_conv_Cons)
qed

lemma attempt_loop_server_error:
  assumes "\<forall>k. \<exists>b. reply k = Responded (Response 500 b)"
  shows "attempt_loop reply a r trace
         = (Inl Embedding_failed, trace @ concat (map (\<lambda>k. [Post k, Sleep 2]) [a..<a + r]))"
proof (induction r arbitrary: a trace)
  case 0
  then show ?case by simp
next
  case (Suc r)
  from assms obtain b where "reply a = Responded (Response 500 b)"
    by blast
  then have "attempt_loop reply a (Suc r) trace
        = attempt_loop reply (Suc a) r (trace @ [Post a, Sleep 2])"
    by simp
  then show ?case
    by (simp add: Suc.IH upt_conv_Cons)
qed

text \<open>
  Claim C7. An endpoint that answers 429 to the attempts \<open>0, ..., m - 1\<close> and 200 with a
  readable body to the attempt \<open>m\<close>, with \<open>m\<close> below the number of retries, gives the
  embedding after exactly \<open>m\<close> sleeps, of \<open>2 ^ k\<close> seconds after the attempt \<open>k\<close>; for
  \<open>m = 2\<close> and at least 3 retries these are the two sleeps of \<open>2 ^ 0\<close> and \<open>2 ^ 1\<close>
  seconds of the claim. An endpoint that answers 500 to every attempt ends in the failure
  after as many attempts as there are retries, each followed by a sleep of 2 seconds.
\<close>

theorem get_embedding_backoff:
  "((\<forall>k<m. \<exists>b. reply k = Responded (Response 429 b))
      \<and> reply m = Responded (Response 200 (Some emb)) \<and> int m < retries
     \<longrightarrow> get_embedding reply retries
          = (Inr emb, concat (map (\<lambda>k. [Post k, Sleep (2 ^ k)]) [0..<m]) @ [Post m]))
   \<and> ((\<forall>k. \<exists>b. reply' k = Responded (Response 500 b))
     \<longrightarrow> get_embedding reply' retries'
          = (Inl Embedding_failed, concat (map (\<lambda>k. [Post k, Sleep 2]) [0..<nat retries'])))"
proof (intro conjI impI)
  assume a: "(\<forall>k<m. \<exists>b. reply k = Responded (Response 429 b))
      \<and> reply m = Responded (Response 200 (Some emb)) \<and> int m < retries"
  define r where "r = nat retries - Suc m"
  from a have r: "nat retries = Suc (m + r)"
    by (simp add: r_def) linarith
  from a attempt_loop_rate_limited [of m reply 0 emb r "[]"] show "get_embedding reply retries
          = (Inr emb, concat (map (\<lambda>k. [Post k, Sleep (2 ^ k)]) [0..<m]) @ [Post m])"
    by (simp add: get_embedding_def r)
next
  assume "\<forall>k. \<exists>b. reply' k = Responded (Response 500 b)"
  from attempt_loop_server_error [OF this, of 0 "nat retries'" "[]"]
  show "get_embedding reply' retries'
          = (Inl Embedding_failed, concat (map (\<lambda>k. [Post k, Sleep 2]) [0..<nat retries']))"
    by (simp add: get_embedding_def)
qed

text \<open>The two endpoints of C7 with the configured three retries.\<close>

theorem get_embedding_backoff_witness:
  "get_embedding (\<lambda>k. if k < 2 then Responded (Response 429 None)
                       else Responded (Response 200 (Some ''[0.5]''))) MAX_RETRIES
     = (Inr ''[0.5]'', [Post 0, Sleep 1, Post 1, Sleep 2, Post 2])
   \<and> get_embedding (\<lambda>k. Responded (Response 500 None)) MAX_RETRIES
     = (Inl Embedding_failed, [Post 0, Sleep 2, Post 1, Sleep 2, Post 2, Sleep 2])"
  using get_embedding_backoff [of 2
      "\<lambda>k. if k < 2 then Responded (Response 429 None) else Responded (Response 200 (Some ''[0.5]''))"
      "''[0.5]''" MAX_RETRIES "\<lambda>k. Responded (Response 500 None)" MAX_RETRIES]
  by (simp add: MAX_RETRIES_def upt_conv_Cons eval_nat_numeral)

text \<open>
  Claim C9. Without an API key (none, or an empty one) the run ends with the
  configuration error and leaves the world as it was: the store file is neither removed,
  created nor written, no call is counted and the log has no new effect, so no file was
  read and no embedding was asked for.
\<close>

theorem run_without_api_key:
  assumes "api_key e = None \<or> api_key e = Some []"
  shows "run e w = Some (Inl Api_key_not_set, w)"
  using assms by (auto simp: run_def)

text \<open>An instance of C9: a store file with one row is still there after the failed run.\<close>

theorem run_without_api_key_witness:
  "run \<lparr>api_key = None, discourse_json = Holds [[''content'' \<mapsto> JStr ''hello'']],
        metadata_json = Absent, markdown_files = (\<lambda>filename. Absent),
        endpoint = (\<lambda>c text k. Responded (Response 200 (Some ''[1.0]''))), latency = (\<lambda>c. 0)\<rparr>
       \<lparr>db_file = Some [(Markdown_chunks, [JInt 7])], uncommitted = [], calls = 0, log = []\<rparr>
   = Some (Inl Api_key_not_set,
       \<lparr>db_file = Some [(Markdown_chunks, [JInt 7])], uncommitted = [], calls = 0, log = []\<rparr>)"
  by (rule run_without_api_key) simp

section \<open>Properties of the batch scheduler\<close>

lemma attempt_loop_error:
  "fst (attempt_loop reply a r trace) = Inl err \<Longrightarrow> err = Embedding_failed"
  by (induction reply a r trace rule: attempt_loop.induct)
     (auto split: outcome.splits option.splits if_splits)

lemma embedding_result_error:
  "embedding_result e c text = Inl err \<Longrightarrow> err = Embedding_failed"
  unfolding embedding_result_def get_embedding_def by (rule attempt_loop_error)

lemma set_failures: "set (failures rs) = {err. Inl err \<in> set rs}"
  by (induction rs rule: failures.induct) auto

lemma failures_append: "failures (rs @ rs') = failures rs @ failures rs'"
  by (induction rs rule: failures.induct) auto

lemma successes_append: "successes (rs @ rs') = successes rs @ successes rs'"
  by (induction rs rule: successes.induct) auto

lemma failures_Nil_iff: "failures rs = [] \<longleftrightarrow> map Inr (successes rs) = rs"
  by (induction rs rule: failures.induct) auto

lemma failures_map_Inr: "failures (map Inr xs) = []"
  by (induction xs) auto

lemma successes_map_Inr: "successes (map Inr xs) = xs"
  by (induction xs) auto

lemma filter_eq_upt: "filter (\<lambda>q. q = p) [0..<n] = (if p < n then [p] else [])"
  by (induction n) auto

lemma zip_upt_nth: "zip [0..<length xs] xs = map (\<lambda>i. (i, xs ! i)) [0..<length xs]"
  by (rule nth_equalityI) auto

lemma filter_position:
  assumes "p < length texts"
  shows "filter (\<lambda>(q, r). q = p) (zip [0..<length texts] texts) = [(p, texts ! p)]"
proof -
  have "filter (\<lambda>(q, r). q = p) (map (\<lambda>i. (i, texts ! i)) [0..<length texts])
        = map (\<lambda>i. (i, texts ! i)) (filter (\<lambda>q. q = p) [0..<length texts])"
    by (simp add: filter_map o_def)
  with assms show ?thesis
    by (simp add: zip_upt_nth filter_eq_upt)
qed

lemma gather_by_position:
  fixes e first texts
  defines "results \<equiv> map (\<lambda>(p, text). (p, embedding_result e (first + p) text))
      (sort_key (\<lambda>(p, text). latency e (first + p)) (zip [0..<length texts] texts))"
  shows "concat (map (\<lambda>p. map snd (filter (\<lambda>(q, r). q = p) results)) [0..<length texts])
         = in_order e first texts"
proof -
  have one: "map snd (filter (\<lambda>(q, r). q = p) results) = [embedding_result e (first + p) (texts ! p)]"
    if "p < length texts" for p
  proof -
    have "filter (\<lambda>(q, r). q = p) results
        = map (\<lambda>(p, text). (p, embedding_result e (first + p) text))
            (filter (\<lambda>(q, r). q = p)
               (sort_key (\<lambda>(p, text). latency e (first + p)) (zip [0..<length texts] texts)))"
      unfolding results_def by (simp add: filter_map o_def split_def)
    also have "filter (\<lambda>(q, r). q = p)
               (sort_key (\<lambda>(p, text). latency e (first + p)) (zip [0..<length texts] texts))
        = sort_key (\<lambda>(p, text). latency e (first + p))
               (filter (\<lambda>(q, r). q = p) (zip [0..<length texts] texts))"
      by (rule filter_sort)
    finally show ?thesis
      using that by (simp add: filter_position)
  qed
  have "map (\<lambda>p. map snd (filter (\<lambda>(q, r). q = p) results)) [0..<length texts]
        = map (\<lambda>p. [embedding_result e (first + p) (texts ! p)]) [0..<length texts]"
    by (rule map_cong) (simp_all add: one)
  then have "concat (map (\<lambda>p. map snd (filter (\<lambda>(q, r). q = p) results)) [0..<length texts])
        = concat (map (\<lambda>p. [embedding_result e (first + p) (texts ! p)]) [0..<length texts])"
    by (rule arg_cong)
  also have "\<dots> = in_order e first texts"
    unfolding in_order_def by (rule concat_map_singleton)
  finally show ?thesis .
qed

lemma gather_failures:
  fixes e first texts
  defines "results \<equiv> map (\<lambda>(p, text). (p, embedding_result e (first + p) text))
      (sort_key (\<lambda>(p, text). latency e (first + p)) (zip [0..<length texts] texts))"
  shows "set (map snd results) = set (in_order e first texts)"
proof -
  have "set (map snd results)
      = (\<lambda>(p, text). embedding_result e (first + p) text) ` set (zip [0..<length texts] texts)"
    unfolding results_def by (force simp: image_iff)
  also have "\<dots> = (\<lambda>(p, text). embedding_result e (first + p) text)
        ` set (map (\<lambda>i. (i, texts ! i)) [0..<length texts])"
    by (simp only: zip_upt_nth)
  also have "\<dots> = set (in_order e first texts)"
    by (auto simp: in_order_def image_iff)
  finally show ?thesis .
qed

lemma gather_in_order:
  "gather e first texts =
     (if failures (in_order e first texts) = [] then Inr (successes (in_order e first texts))
      else Inl Embedding_failed)"
proof -
  define results where "results = map (\<lambda>(p, text). (p, embedding_result e (first + p) text))
      (sort_key (\<lambda>(p, text). latency e (first + p)) (zip [0..<length texts] texts))"
  have pos: "concat (map (\<lambda>p. map snd (filter (\<lambda>(q, r). q = p) results)) [0..<length texts])
         = in_order e first texts"
    unfolding results_def by (rule gather_by_position)
  have same: "set (map snd results) = set (in_order e first texts)"
    unfolding results_def by (rule gather_failures)
  have g: "gather e first texts =
     (case failures (map snd results) of
        [] \<Rightarrow> Inr (successes (in_order e first texts))
      | err # _ \<Rightarrow> Inl err)"
    unfolding gather_def Let_def results_def [symmetric] pos ..
  show ?thesis
  proof (cases "failures (map snd results)")
    case Nil
    then have "set (failures (in_order e first texts)) = {}"
      using same set_failures [of "map snd results"] by (simp add: set_failures)
    with Nil g show ?thesis by simp
  next
    case (Cons err errs)
    then have "err \<in> set (failures (map snd results))" by simp
    then have in_set: "Inl err \<in> set (in_order e first texts)"
      using same by (simp add: set_failures)
    then have "err = Embedding_failed"
      by (auto simp: in_order_def dest: embedding_result_error [OF sym])
    moreover from in_set have "failures (in_order e first texts) \<noteq> []"
      using set_failures [of "in_order e first texts"] by auto
    ultimately show ?thesis
      using Cons g by simp
  qed
qed

lemma length_segment_rows [simp]: "length (segment_rows e mk_row first segs) = length segs"
  by (simp add: segment_rows_def)

lemma length_in_order [simp]: "length (in_order e first texts) = length texts"
  by (simp add: in_order_def)

lemma segment_rows_append:
  "segment_rows e mk_row first (xs @ ys)
   = segment_rows e mk_row first xs @ segment_rows e mk_row (first + length xs) ys"
  by (rule nth_equalityI) (auto simp: segment_rows_def nth_append add.assoc)

lemma stored_row_Inr:
  "stored_row mk_row doc idx chunk emb = Inr r \<longleftrightarrow>
   mk_row doc idx chunk emb = Inr r \<and> row_bind_error r = None"
  by (auto simp: stored_row_def split: sum.splits option.splits)

lemma insert_rows_step:
  assumes "stored_row mk_row doc idx chunk emb = Inr r"
  shows "insert_rows mk_row tbl (((doc, idx, chunk), emb) # zs) w
     = insert_rows mk_row tbl zs
         (w\<lparr>uncommitted := uncommitted w @ [(tbl, r)], log := log w @ [Insert tbl r]\<rparr>)"
  using assms by (simp add: stored_row_Inr execute_insert_def)

lemma insert_rows_stop:
  assumes "stored_row mk_row doc idx chunk emb = Inl err"
  shows "insert_rows mk_row tbl (((doc, idx, chunk), emb) # zs) w = (Inl err, w)"
  using assms
  by (auto simp: stored_row_def execute_insert_def split: sum.splits option.splits)

lemma insert_rows_ok:
  assumes "map Inr rows = map (\<lambda>((doc, idx, chunk), emb). stored_row mk_row doc idx chunk emb) zs"
  shows "insert_rows mk_row tbl zs w
     = (Inr (), w\<lparr>uncommitted := uncommitted w @ map (Pair tbl) rows,
                  log := log w @ map (Insert tbl) rows\<rparr>)"
  using assms
proof (induction zs arbitrary: rows w)
  case Nil
  then show ?case by simp
next
  case (Cons z zs)
  obtain doc idx chunk emb where z: "z = ((doc, idx, chunk), emb)"
    by (metis prod.exhaust)
  from Cons.prems obtain r rows' where rows: "rows = r # rows'"
    by (cases rows) auto
  with Cons.prems z have r: "stored_row mk_row doc idx chunk emb = Inr r"
    and rest: "map Inr rows' = map (\<lambda>((doc, idx, chunk), emb). stored_row mk_row doc idx chunk emb) zs"
    by auto
  show ?case
    by (simp only: z insert_rows_step [OF r] Cons.IH [OF rest]) (simp add: rows)
qed

lemma insert_rows_failed:
  assumes "failures (map (\<lambda>((doc, idx, chunk), emb). stored_row mk_row doc idx chunk emb) zs) \<noteq> []"
  shows "\<exists>err rows. insert_rows mk_row tbl zs w
     = (Inl err, w\<lparr>uncommitted := uncommitted w @ map (Pair tbl) rows,
                   log := log w @ map (Insert tbl) rows\<rparr>)
     \<and> length rows < length zs"
  using assms
proof (induction zs arbitrary: w)
  case Nil
  then show ?case by simp
next
  case (Cons z zs)
  obtain doc idx chunk emb where z: "z = ((doc, idx, chunk), emb)"
    by (metis prod.exhaust)
  show ?case
  proof (cases "stored_row mk_row doc idx chunk emb")
    case (Inl err)
    have "insert_rows mk_row tbl (z # zs) w
        = (Inl err, w\<lparr>uncommitted := uncommitted w @ map (Pair tbl) [],
                      log := log w @ map (Insert tbl) []\<rparr>)"
      by (simp only: z insert_rows_stop [OF Inl]) simp
    then show ?thesis
      by (intro exI [of _ err] exI [of _ "[]"]) simp
  next
    case (Inr r)
    let ?w1 = "w\<lparr>uncommitted := uncommitted w @ [(tbl, r)], log := log w @ [Insert tbl r]\<rparr>"
    from Inr Cons.prems z
    have "failures (map (\<lambda>((doc, idx, chunk), emb). stored_row mk_row doc idx chunk emb) zs) \<noteq> []"
      by simp
    from Cons.IH [OF this, of ?w1] obtain err rows
      where run: "insert_rows mk_row tbl zs ?w1
          = (Inl err, ?w1\<lparr>uncommitted := uncommitted ?w1 @ map (Pair tbl) rows,
                          log := log ?w1 @ map (Insert tbl) rows\<rparr>)"
        and len: "length rows < length zs"
      by blast
    have "insert_rows mk_row tbl (z # zs) w
        = (Inl err, w\<lparr>uncommitted := uncommitted w @ map (Pair tbl) (r # rows),
                      log := log w @ map (Insert tbl) (r # rows)\<rparr>)"
      by (simp only: z insert_rows_step [OF Inr] run) simp
    with len show ?thesis
      by (intro exI [of _ err] exI [of _ "r # rows"]) simp
  qed
qed

lemma in_order_nth:
  "p < length batch \<Longrightarrow>
   in_order e c (map (\<lambda>(doc, idx, chunk). chunk) batch) ! p
   = embedding_result e (c + p) ((\<lambda>(doc, idx, chunk). chunk) (batch ! p))"
  by (simp add: in_order_def)

lemma rows_of_embeddings:
  assumes "failures (in_order e c (map (\<lambda>(doc, idx, chunk). chunk) batch)) = []"
  shows "map (\<lambda>((doc, idx, chunk), emb). stored_row mk_row doc idx chunk emb)
           (zip batch (successes (in_order e c (map (\<lambda>(doc, idx, chunk). chunk) batch))))
         = segment_rows e mk_row c batch"
proof -
  let ?embs = "successes (in_order e c (map (\<lambda>(doc, idx, chunk). chunk) batch))"
  from assms have eq: "map Inr ?embs = in_order e c (map (\<lambda>(doc, idx, chunk). chunk) batch)"
    by (simp add: failures_Nil_iff)
  then have "length (map Inr ?embs :: (error + string) list) = length batch"
    by simp
  then have len: "length ?embs = length batch"
    by simp
  show ?thesis
  proof (rule nth_equalityI)
    show "length (map (\<lambda>((doc, idx, chunk), emb). stored_row mk_row doc idx chunk emb) (zip batch ?embs))
          = length (segment_rows e mk_row c batch)"
      by (simp add: len)
  next
    fix p
    assume "p < length (map (\<lambda>((doc, idx, chunk), emb). stored_row mk_row doc idx chunk emb) (zip batch ?embs))"
    then have p: "p < length batch"
      by (simp add: len)
    obtain doc idx chunk where seg: "batch ! p = (doc, idx, chunk)"
      by (metis prod.exhaust)
    have "(map Inr ?embs :: (error + string) list) ! p = embedding_result e (c + p) chunk"
      using in_order_nth [OF p, of e c] seg by (simp only: eq) simp
    then have "embedding_result e (c + p) chunk = Inr (?embs ! p)"
      using p len by simp
    then show "map (\<lambda>((doc, idx, chunk), emb). stored_row mk_row doc idx chunk emb) (zip batch ?embs) ! p
          = segment_rows e mk_row c batch ! p"
      using p len seg by (simp add: segment_rows_def segment_row_def)
  qed
qed

lemma failed_embedding_fails_row:
  assumes "failures (in_order e c (map (\<lambda>(doc, idx, chunk). chunk) batch)) \<noteq> []"
  shows "failures (segment_rows e mk_row c batch) \<noteq> []"
proof -
  from assms obtain err where "err \<in> set (failures (in_order e c (map (\<lambda>(doc, idx, chunk). chunk) batch)))"
    by (cases "failures (in_order e c (map (\<lambda>(doc, idx, chunk). chunk) batch))") auto
  then have "Inl err \<in> set (in_order e c (map (\<lambda>(doc, idx, chunk). chunk) batch))"
    by (simp add: set_failures)
  then obtain p where p: "p < length batch"
    and "in_order e c (map (\<lambda>(doc, idx, chunk). chunk) batch) ! p = Inl err"
    by (auto simp: in_set_conv_nth)
  then have "embedding_result e (c + p) ((\<lambda>(doc, idx, chunk). chunk) (batch ! p)) = Inl err"
    by (simp add: in_order_nth)
  then have "segment_rows e mk_row c batch ! p = Inl err"
    using p by (simp add: segment_rows_def segment_row_def split: prod.splits)
  then have "Inl err \<in> set (segment_rows e mk_row c batch)"
    using p by (metis length_segment_rows nth_mem)
  then have "err \<in> set (failures (segment_rows e mk_row c batch))"
    by (simp add: set_failures)
  then show ?thesis by auto
qed

lemma wave_loop_next:
  assumes "0 < n" and "i < length to_insert"
    and "map Inr rows = segment_rows e mk_row (calls w) (take n (drop i to_insert))"
  shows "wave_loop e n mk_row tbl to_insert i w
     = wave_loop e n mk_row tbl to_insert (i + n)
         (w\<lparr>db_file := Some (committed_rows w @ uncommitted w @ map (Pair tbl) rows),
            uncommitted := [],
            calls := calls w + length rows,
            log := log w @ Gather (calls w) (map (\<lambda>(doc, idx, chunk). chunk) (take n (drop i to_insert)))
                     # map (Insert tbl) rows @ [Commit]\<rparr>)"
proof -
  let ?batch = "take n (drop i to_insert)"
  let ?texts = "map (\<lambda>(doc, idx, chunk). chunk) ?batch"
  let ?w1 = "w\<lparr>calls := calls w + length ?batch, log := log w @ [Gather (calls w) ?texts]\<rparr>"
  have "failures (segment_rows e mk_row (calls w) ?batch) = []"
    by (simp only: assms(3) [symmetric] failures_map_Inr)
  then have ok: "failures (in_order e (calls w) ?texts) = []"
    using failed_embedding_fails_row [of e "calls w" ?batch mk_row] by blast
  then have g: "gather e (calls w) ?texts = Inr (successes (in_order e (calls w) ?texts))"
    by (simp add: gather_in_order)
  have len: "length rows = length ?batch"
    using arg_cong [OF assms(3), of length] by simp
  have "map Inr rows = map (\<lambda>((doc, idx, chunk), emb). stored_row mk_row doc idx chunk emb)
           (zip ?batch (successes (in_order e (calls w) ?texts)))"
    by (simp only: rows_of_embeddings [OF ok] assms(3))
  from insert_rows_ok [OF this, of tbl ?w1]
  have ins: "insert_rows mk_row tbl (zip ?batch (successes (in_order e (calls w) ?texts))) ?w1
      = (Inr (), ?w1\<lparr>uncommitted := uncommitted ?w1 @ map (Pair tbl) rows,
                      log := log ?w1 @ map (Insert tbl) rows\<rparr>)" .
  have cond: "0 < n \<and> i < length to_insert"
    using assms(1,2) by simp
  have step: "wave_loop e n mk_row tbl to_insert i w
      = wave_loop e n mk_row tbl to_insert (i + n)
          (commit (?w1\<lparr>uncommitted := uncommitted ?w1 @ map (Pair tbl) rows,
                         log := log ?w1 @ map (Insert tbl) rows\<rparr>))"
    by (subst wave_loop.simps) (simp only: cond simp_thms if_True Let_def g ins sum.case prod.case)
  have "commit (?w1\<lparr>uncommitted := uncommitted ?w1 @ map (Pair tbl) rows,
                         log := log ?w1 @ map (Insert tbl) rows\<rparr>)
      = w\<lparr>db_file := Some (committed_rows w @ uncommitted w @ map (Pair tbl) rows),
            uncommitted := [],
            calls := calls w + length rows,
            log := log w @ Gather (calls w) ?texts # map (Insert tbl) rows @ [Commit]\<rparr>"
    by (cases w) (simp add: commit_def committed_rows_def len)
  with step show ?thesis
    by (simp only:)
qed

lemma wave_loop_failed:
  assumes "0 < n" and "i < length to_insert"
    and "failures (segment_rows e mk_row (calls w) (take n (drop i to_insert))) \<noteq> []"
  shows "\<exists>err rows. wave_loop e n mk_row tbl to_insert i w
     = (Inl err,
         w\<lparr>uncommitted := uncommitted w @ map (Pair tbl) rows,
           calls := calls w + length (take n (drop i to_insert)),
           log := log w @ Gather (calls w) (map (\<lambda>(doc, idx, chunk). chunk) (take n (drop i to_insert)))
                     # map (Insert tbl) rows\<rparr>)
     \<and> length rows < length (take n (drop i to_insert))
     \<and> (failures (in_order e (calls w) (map (\<lambda>(doc, idx, chunk). chunk) (take n (drop i to_insert)))) \<noteq> []
          \<longrightarrow> err = Embedding_failed \<and> rows = [])"
proof -
  let ?batch = "take n (drop i to_insert)"
  let ?texts = "map (\<lambda>(doc, idx, chunk). chunk) ?batch"
  let ?w1 = "w\<lparr>calls := calls w + length ?batch, log := log w @ [Gather (calls w) ?texts]\<rparr>"
  show ?thesis
  proof (cases "failures (in_order e (calls w) ?texts) = []")
    case True
    then have g: "gather e (calls w) ?texts = Inr (successes (in_order e (calls w) ?texts))"
      by (simp add: gather_in_order)
    have "failures (map (\<lambda>((doc, idx, chunk), emb). stored_row mk_row doc idx chunk emb)
           (zip ?batch (successes (in_order e (calls w) ?texts)))) \<noteq> []"
      by (simp only: rows_of_embeddings [OF True] assms(3)) simp
    from insert_rows_failed [OF this, of tbl ?w1] obtain err rows where
      ins: "insert_rows mk_row tbl (zip ?batch (successes (in_order e (calls w) ?texts))) ?w1
        = (Inl err, ?w1\<lparr>uncommitted := uncommitted ?w1 @ map (Pair tbl) rows,
                        log := log ?w1 @ map (Insert tbl) rows\<rparr>)"
      and len: "length rows < length (zip ?batch (successes (in_order e (calls w) ?texts)))"
      by blast
    have "length (successes (in_order e (calls w) ?texts)) = length ?batch"
      using True arg_cong [OF failures_Nil_iff [THEN iffD1, OF True], of length] by simp
    with len have len': "length rows < length ?batch"
      by simp
    have cond: "0 < n \<and> i < length to_insert"
      using assms(1,2) by simp
    have "wave_loop e n mk_row tbl to_insert i w
        = (Inl err, ?w1\<lparr>uncommitted := uncommitted ?w1 @ map (Pair tbl) rows,
                        log := log ?w1 @ map (Insert tbl) rows\<rparr>)"
      by (subst wave_loop.simps) (simp only: cond simp_thms if_True Let_def g ins sum.case prod.case)
    moreover have "?w1\<lparr>uncommitted := uncommitted ?w1 @ map (Pair tbl) rows,
                        log := log ?w1 @ map (Insert tbl) rows\<rparr>
        = w\<lparr>uncommitted := uncommitted w @ map (Pair tbl) rows,
             calls := calls w + length ?batch,
             log := log w @ Gather (calls w) ?texts # map (Insert tbl) rows\<rparr>"
      by (cases w) simp
    ultimately have "wave_loop e n mk_row tbl to_insert i w
        = (Inl err, w\<lparr>uncommitted := uncommitted w @ map (Pair tbl) rows,
             calls := calls w + length ?batch,
             log := log w @ Gather (calls w) ?texts # map (Insert tbl) rows\<rparr>)"
      by (simp only:)
    with len' True show ?thesis
      by blast
  next
    case False
    then have g: "gather e (calls w) ?texts = Inl Embedding_failed"
      by (simp add: gather_in_order)
    have cond: "0 < n \<and> i < length to_insert"
      using assms(1,2) by simp
    have "wave_loop e n mk_row tbl to_insert i w = (Inl Embedding_failed, ?w1)"
      by (subst wave_loop.simps) (simp only: cond simp_thms if_True Let_def g sum.case)
    moreover have "?w1 = w\<lparr>uncommitted := uncommitted w @ map (Pair tbl) [],
             calls := calls w + length ?batch,
             log := log w @ Gather (calls w) ?texts # map (Insert tbl) []\<rparr>"
      by (cases w) simp
    ultimately have "wave_loop e n mk_row tbl to_insert i w
        = (Inl Embedding_failed, w\<lparr>uncommitted := uncommitted w @ map (Pair tbl) [],
             calls := calls w + length ?batch,
             log := log w @ Gather (calls w) ?texts # map (Insert tbl) []\<rparr>)"
      by (simp only:)
    moreover have "0 < length ?batch"
      using assms(1,2) by simp
    ultimately show ?thesis
      by (intro exI [of _ Embedding_failed] exI [of _ "[]"]) simp
  qed
qed

lemma wave_loop_done:
  "length to_insert \<le> i \<Longrightarrow> wave_loop e n mk_row tbl to_insert i w = (Inr (), w)"
  by (subst wave_loop.simps) simp

lemma gathered_append: "gathered (evs @ evs') = gathered evs @ gathered evs'"
  by (induction evs rule: gathered.induct) auto

lemma gathered_inserts: "gathered (map (Insert tbl) rows) = []"
  by (induction rows) auto

lemma wave_count_step:
  assumes "0 < n" and "i < m"
  shows "\<lceil>real (m - i) / real n\<rceil> = 1 + \<lceil>real (m - (i + n)) / real n\<rceil>"
proof (cases "m - i \<le> n")
  case True
  then have "m - (i + n) = 0" by simp
  moreover have "\<lceil>real_of_int (int (m - i)) / real_of_int (int n)\<rceil> = 1"
    using True assms by (intro ceiling_one) simp_all
  ultimately show ?thesis by simp
next
  case False
  then have "int (m - (i + n)) = int (m - i) - int n" by simp
  with ceiling_step [of "int n" "int (m - i)"] assms(1)
  have "\<lceil>real_of_int (int (m - i)) / real_of_int (int n)\<rceil>
      = 1 + \<lceil>real_of_int (int (m - (i + n))) / real_of_int (int n)\<rceil>"
    by simp
  then show ?thesis by (simp only: of_int_of_nat_eq)
qed

lemma failures_cases:
  obtains (ok) rows where "map Inr rows = rs" | (failed) "failures rs \<noteq> []"
  using failures_Nil_iff [of rs] by blast

lemma wave_loop_success:
  assumes "0 < n"
  shows "wave_loop e n mk_row tbl to_insert i w = (Inr (), w') \<Longrightarrow>
     \<exists>rows events.
        log w' = log w @ events
      \<and> int (length (gathered events)) = \<lceil>real (length to_insert - i) / real n\<rceil>
      \<and> (\<forall>texts\<in>set (gathered events). length texts \<le> n)
      \<and> concat (gathered events) = map (\<lambda>(doc, idx, chunk). chunk) (drop i to_insert)
      \<and> map Inr rows = segment_rows e mk_row (calls w) (drop i to_insert)
      \<and> committed_rows w' @ uncommitted w' = committed_rows w @ uncommitted w @ map (Pair tbl) rows
      \<and> (i < length to_insert \<longrightarrow> uncommitted w' = [])"
proof (induction "length to_insert - i" arbitrary: i w rule: less_induct)
  case less
  show ?case
  proof (cases "i < length to_insert")
    case False
    then have "wave_loop e n mk_row tbl to_insert i w = (Inr (), w)"
      by (simp add: wave_loop_done)
    with less.prems have "w' = w" by simp
    with False show ?thesis
      by (intro exI [of _ "[]"]) (simp add: segment_rows_def)
  next
    case True
    let ?batch = "take n (drop i to_insert)"
    let ?texts = "map (\<lambda>(doc, idx, chunk). chunk) ?batch"
    show ?thesis
    proof (cases "segment_rows e mk_row (calls w) ?batch" rule: failures_cases)
      case failed
      from wave_loop_failed [OF assms True failed, of tbl] less.prems show ?thesis
        by auto
    next
      case (ok rows1)
      define w2 where "w2 = w\<lparr>db_file := Some (committed_rows w @ uncommitted w @ map (Pair tbl) rows1),
            uncommitted := [],
            calls := calls w + length rows1,
            log := log w @ Gather (calls w) ?texts # map (Insert tbl) rows1 @ [Commit]\<rparr>"
      have len1: "length rows1 = length ?batch"
        using arg_cong [OF ok, of length] by simp
      have step: "wave_loop e n mk_row tbl to_insert i w = wave_loop e n mk_row tbl to_insert (i + n) w2"
        unfolding w2_def by (rule wave_loop_next [OF assms True ok])
      with less.prems have run: "wave_loop e n mk_row tbl to_insert (i + n) w2 = (Inr (), w')"
        by simp
      have "length to_insert - (i + n) < length to_insert - i"
        using True assms by simp
      from less.hyps [OF this run] obtain rows2 events2 where
        log2: "log w' = log w2 @ events2"
        and cnt2: "int (length (gathered events2)) = \<lceil>real (length to_insert - (i + n)) / real n\<rceil>"
        and sz2: "\<forall>texts\<in>set (gathered events2). length texts \<le> n"
        and cat2: "concat (gathered events2) = map (\<lambda>(doc, idx, chunk). chunk) (drop (i + n) to_insert)"
        and rows2: "map Inr rows2 = segment_rows e mk_row (calls w2) (drop (i + n) to_insert)"
        and store2: "committed_rows w' @ uncommitted w'
            = committed_rows w2 @ uncommitted w2 @ map (Pair tbl) rows2"
        and unc2: "i + n < length to_insert \<longrightarrow> uncommitted w' = []"
        by blast
      let ?events = "Gather (calls w) ?texts # map (Insert tbl) rows1 @ [Commit] @ events2"
      have split: "drop i to_insert = ?batch @ drop (i + n) to_insert"
        by (metis add.commute append_take_drop_id drop_drop)
      have g: "gathered ?events = ?texts # gathered events2"
        by (simp add: gathered_append gathered_inserts)
      have 1: "log w' = log w @ ?events"
        using log2 by (simp add: w2_def)
      have 2: "int (length (gathered ?events)) = \<lceil>real (length to_insert - i) / real n\<rceil>"
        using cnt2 wave_count_step [OF assms True] by (simp only: g) simp
      have 3: "\<forall>texts\<in>set (gathered ?events). length texts \<le> n"
        using sz2 by (simp only: g) simp
      have 4: "concat (gathered ?events) = map (\<lambda>(doc, idx, chunk). chunk) (drop i to_insert)"
        using cat2 by (simp only: g) (subst (2) split, simp)
      have "segment_rows e mk_row (calls w) (drop i to_insert)
          = segment_rows e mk_row (calls w) ?batch
            @ segment_rows e mk_row (calls w + length ?batch) (drop (i + n) to_insert)"
        by (subst split) (rule segment_rows_append)
      then have 5: "map Inr (rows1 @ rows2) = segment_rows e mk_row (calls w) (drop i to_insert)"
        using ok rows2 len1 by (simp add: w2_def)
      have 6: "committed_rows w' @ uncommitted w'
          = committed_rows w @ uncommitted w @ map (Pair tbl) (rows1 @ rows2)"
        using store2 by (simp add: w2_def committed_rows_def)
      have 7: "uncommitted w' = []"
      proof (cases "i + n < length to_insert")
        case True
        with unc2 show ?thesis by simp
      next
        case False
        then have "wave_loop e n mk_row tbl to_insert (i + n) w2 = (Inr (), w2)"
          by (simp add: wave_loop_done)
        with run show ?thesis by (simp add: w2_def)
      qed
      from 1 2 3 4 5 6 7 show ?thesis
        by blast
    qed
  qed
qed

lemma gather_endpoint:
  assumes "endpoint e' = endpoint e"
  shows "gather e' first texts = gather e first texts"
proof -
  have "in_order e' first texts = in_order e first texts"
    by (simp only: in_order_def embedding_result_def assms)
  then show ?thesis
    by (simp only: gather_in_order)
qed

lemma wave_loop_endpoint:
  assumes "endpoint e' = endpoint e"
  shows "wave_loop e' n mk_row tbl to_insert i w = wave_loop e n mk_row tbl to_insert i w"
proof (induction "length to_insert - i" arbitrary: i w rule: less_induct)
  case less
  show ?case
  proof (cases "0 < n \<and> i < length to_insert")
    case False
    show ?thesis
      by (subst wave_loop.simps [of e' n mk_row tbl to_insert i w],
          subst wave_loop.simps [of e n mk_row tbl to_insert i w])
         (simp only: False if_False)
  next
    case True
    then have "length to_insert - (i + n) < length to_insert - i"
      by linarith
    from less [OF this]
    have IH: "wave_loop e' n mk_row tbl to_insert (i + n) w2
        = wave_loop e n mk_row tbl to_insert (i + n) w2" for w2 .
    show ?thesis
      by (subst wave_loop.simps [of e' n mk_row tbl to_insert i w],
          subst wave_loop.simps [of e n mk_row tbl to_insert i w])
         (simp only: gather_endpoint [OF assms] IH)
  qed
qed

lemma process_waves_endpoint:
  assumes "endpoint e' = endpoint e"
  shows "process_waves e' n mk_row tbl to_insert w = process_waves e n mk_row tbl to_insert w"
  unfolding process_waves_def by (simp only: wave_loop_endpoint [OF assms])

lemma waves_log_Nil [simp]: "waves_log tbl n first [] rows = []"
  by (subst waves_log.simps) simp

lemma waves_log_single:
  assumes "0 < n" and "texts \<noteq> []" and "length texts \<le> n" and "length rows = length texts"
  shows "waves_log tbl n first texts rows = Gather first texts # map (Insert tbl) rows @ [Commit]"
  using assms by (subst waves_log.simps) simp

lemma waves_log_append:
  assumes "0 < n"
  shows "length texts = k * n \<Longrightarrow> length rows = k * n \<Longrightarrow>
     waves_log tbl n first (texts @ texts') (rows @ rows')
     = waves_log tbl n first texts rows @ waves_log tbl n (first + k * n) texts' rows'"
proof (induction k arbitrary: texts rows first)
  case 0
  then show ?case by simp
next
  case (Suc k)
  from Suc.prems assms have ne: "texts \<noteq> []" and len: "n \<le> length texts" "n \<le> length rows"
    by auto
  have dt: "length (drop n texts) = k * n" and dr: "length (drop n rows) = k * n"
    using Suc.prems by simp_all
  have tails: "waves_log tbl n (first + n) (drop n texts @ texts') (drop n rows @ rows')
      = waves_log tbl n (first + n) (drop n texts) (drop n rows)
        @ waves_log tbl n (first + n + k * n) texts' rows'"
    by (rule Suc.IH [OF dt dr])
  have "waves_log tbl n first (texts @ texts') (rows @ rows')
      = Gather first (take n texts) # map (Insert tbl) (take n rows) @ [Commit]
          @ waves_log tbl n (first + n) (drop n texts @ texts') (drop n rows @ rows')"
    using assms ne len by (subst waves_log.simps) simp
  also have "\<dots> = (Gather first (take n texts) # map (Insert tbl) (take n rows) @ [Commit]
          @ waves_log tbl n (first + n) (drop n texts) (drop n rows))
        @ waves_log tbl n (first + n + k * n) texts' rows'"
    by (simp only: tails) simp
  also have "Gather first (take n texts) # map (Insert tbl) (take n rows) @ [Commit]
          @ waves_log tbl n (first + n) (drop n texts) (drop n rows)
      = waves_log tbl n first texts rows"
    using assms ne by (subst (2) waves_log.simps) simp
  finally show ?case
    by (simp add: add.assoc add.commute)
qed

lemma after_waves_Nil [simp]: "after_waves tbl n [] rows w = w"
  by (simp add: after_waves_def)

lemma after_waves_next:
  assumes "0 < n" and "length texts = k * n" and "length rows = k * n"
    and "texts' \<noteq> []" and "length texts' \<le> n" and "length rows' = length texts'"
  shows "(after_waves tbl n texts rows w)
      \<lparr>db_file := Some (committed_rows (after_waves tbl n texts rows w)
                        @ uncommitted (after_waves tbl n texts rows w) @ map (Pair tbl) rows'),
       uncommitted := [],
       calls := calls (after_waves tbl n texts rows w) + length rows',
       log := log (after_waves tbl n texts rows w)
                @ Gather (calls (after_waves tbl n texts rows w)) texts'
                  # map (Insert tbl) rows' @ [Commit]\<rparr>
     = after_waves tbl n (texts @ texts') (rows @ rows') w"
proof -
  have log: "waves_log tbl n (calls w) (texts @ texts') (rows @ rows')
      = waves_log tbl n (calls w) texts rows
        @ Gather (calls w + k * n) texts' # map (Insert tbl) rows' @ [Commit]"
    by (simp only: waves_log_append [OF assms(1,2,3)] waves_log_single [OF assms(1,4,5,6)])
  have rows_nil: "texts = [] \<Longrightarrow> rows = []"
    using assms(2,3) by auto
  let ?wj = "after_waves tbl n texts rows w"
  have calls: "calls ?wj = calls w + k * n"
    using assms(2) by (simp add: after_waves_def)
  have stored: "committed_rows ?wj @ uncommitted ?wj @ map (Pair tbl) rows'
      = committed_rows w @ uncommitted w @ map (Pair tbl) (rows @ rows')"
    using rows_nil by (simp add: after_waves_def committed_rows_def)
  have logged: "log ?wj @ Gather (calls ?wj) texts' # map (Insert tbl) rows' @ [Commit]
      = log w @ waves_log tbl n (calls w) (texts @ texts') (rows @ rows')"
    by (simp only: calls log) (simp add: after_waves_def)
  have counted: "calls ?wj + length rows' = calls w + length (texts @ texts')"
    using assms(2,6) by (simp add: calls)
  show ?thesis
    by (simp only: stored logged counted) (simp add: after_waves_def assms(4))
qed

lemma wave_loop_waves:
  assumes "0 < n"
  shows "map Inr rows = segment_rows e mk_row (calls w) (take (j * n) to_insert) \<Longrightarrow>
     wave_loop e n mk_row tbl to_insert 0 w
     = wave_loop e n mk_row tbl to_insert (j * n)
         (after_waves tbl n (map (\<lambda>(doc, idx, chunk). chunk) (take (j * n) to_insert)) rows w)"
proof (induction j arbitrary: rows)
  case 0
  show ?case by simp
next
  case (Suc j)
  let ?chunk = "\<lambda>(doc, idx, chunk). chunk :: string"
  show ?case
  proof (cases "j * n < length to_insert")
    case False
    then have same: "take (Suc j * n) to_insert = take (j * n) to_insert"
      by simp
    from Suc.prems have "map Inr rows = segment_rows e mk_row (calls w) (take (j * n) to_insert)"
      by (simp only: same)
    from Suc.IH [OF this] False show ?thesis
      by (simp only: same) (simp add: wave_loop_done)
  next
    case True
    let ?batch = "take n (drop (j * n) to_insert)"
    have "Suc j * n = j * n + n"
      by simp
    then have split: "take (Suc j * n) to_insert = take (j * n) to_insert @ ?batch"
      by (simp only: take_add)
    have len: "length (take (j * n) to_insert) = j * n"
      using True by simp
    have "segment_rows e mk_row (calls w) (take (Suc j * n) to_insert)
        = segment_rows e mk_row (calls w) (take (j * n) to_insert)
          @ segment_rows e mk_row (calls w + j * n) ?batch"
      by (simp only: split segment_rows_append len)
    with Suc.prems obtain rows1 rows2 where rows: "rows = rows1 @ rows2"
      and rows1: "map Inr rows1 = segment_rows e mk_row (calls w) (take (j * n) to_insert)"
      and rows2: "map Inr rows2 = segment_rows e mk_row (calls w + j * n) ?batch"
      by (auto simp: map_eq_append_conv)
    let ?wj = "after_waves tbl n (map ?chunk (take (j * n) to_insert)) rows1 w"
    have calls: "calls ?wj = calls w + j * n"
      using len by (simp add: after_waves_def)
    have len1: "length rows1 = j * n"
      using arg_cong [OF rows1, of length] len by simp
    have len2: "length rows2 = length ?batch"
      using arg_cong [OF rows2, of length] by simp
    have rows2': "map Inr rows2 = segment_rows e mk_row (calls ?wj) ?batch"
      using rows2 calls by simp
    have ne: "map ?chunk ?batch \<noteq> []" and le: "length (map ?chunk ?batch) \<le> n"
      using True assms by simp_all
    have "wave_loop e n mk_row tbl to_insert 0 w = wave_loop e n mk_row tbl to_insert (j * n) ?wj"
      by (rule Suc.IH [OF rows1])
    also have "\<dots> = wave_loop e n mk_row tbl to_insert (j * n + n)
         (?wj\<lparr>db_file := Some (committed_rows ?wj @ uncommitted ?wj @ map (Pair tbl) rows2),
            uncommitted := [],
            calls := calls ?wj + length rows2,
            log := log ?wj @ Gather (calls ?wj) (map ?chunk ?batch)
                     # map (Insert tbl) rows2 @ [Commit]\<rparr>)"
      by (rule wave_loop_next [OF assms True rows2'])
    also have "?wj\<lparr>db_file := Some (committed_rows ?wj @ uncommitted ?wj @ map (Pair tbl) rows2),
            uncommitted := [],
            calls := calls ?wj + length rows2,
            log := log ?wj @ Gather (calls ?wj) (map ?chunk ?batch)
                     # map (Insert tbl) rows2 @ [Commit]\<rparr>
        = after_waves tbl n (map ?chunk (take (j * n) to_insert) @ map ?chunk ?batch) (rows1 @ rows2) w"
    proof (rule after_waves_next [OF assms _ len1 ne le])
      show "length (map ?chunk (take (j * n) to_insert)) = j * n"
        using len by simp
      show "length rows2 = length (map ?chunk ?batch)"
        using len2 by simp
    qed
    finally have "wave_loop e n mk_row tbl to_insert 0 w
        = wave_loop e n mk_row tbl to_insert (j * n + n)
            (after_waves tbl n (map ?chunk (take (j * n) to_insert @ ?batch)) (rows1 @ rows2) w)"
      by (simp only: map_append)
    then show ?thesis
      by (simp only: split [symmetric] rows [symmetric] \<open>Suc j * n = j * n + n\<close> [symmetric])
  qed
qed

lemma process_waves_prefix:
  assumes "0 < n"
    and "map Inr rows = segment_rows e mk_row (calls w) (take (j * n) to_insert)"
  shows "process_waves e n mk_row tbl (take (j * n) to_insert) w
     = (Inr (), after_waves tbl n (map (\<lambda>(doc, idx, chunk). chunk) (take (j * n) to_insert)) rows w)"
proof -
  have again: "take (j * n) (take (j * n) to_insert) = take (j * n) to_insert"
    by simp
  from assms(2) have "map Inr rows
      = segment_rows e mk_row (calls w) (take (j * n) (take (j * n) to_insert))"
    by (simp only: again)
  from wave_loop_waves [OF assms(1) this, of tbl]
  have "wave_loop e n mk_row tbl (take (j * n) to_insert) 0 w
      = wave_loop e n mk_row tbl (take (j * n) to_insert) (j * n)
          (after_waves tbl n (map (\<lambda>(doc, idx, chunk). chunk) (take (j * n) to_insert)) rows w)"
    by (simp only: again)
  also have "\<dots> = (Inr (),
      after_waves tbl n (map (\<lambda>(doc, idx, chunk). chunk) (take (j * n) to_insert)) rows w)"
    by (rule wave_loop_done) simp
  finally show ?thesis
    using assms(1) by (simp add: process_waves_def)
qed

lemma process_waves_all_built:
  assumes "0 < n"
    and "map Inr rows = segment_rows e mk_row (calls w) to_insert"
  shows "process_waves e n mk_row tbl to_insert w
     = (Inr (), after_waves tbl n (map (\<lambda>(doc, idx, chunk). chunk) to_insert) rows w)"
proof -
  have "length to_insert \<le> length to_insert * n"
    using assms(1) by simp
  then have all: "take (length to_insert * n) to_insert = to_insert"
    by simp
  from assms(2) have "map Inr rows
      = segment_rows e mk_row (calls w) (take (length to_insert * n) to_insert)"
    by (simp only: all)
  from process_waves_prefix [OF assms(1) this, of tbl] show ?thesis
    by (simp only: all)
qed

lemma wave_loop_grows:
  assumes "0 < n"
  shows "\<exists>rest later.
        log (snd (wave_loop e n mk_row tbl to_insert i w)) = log w @ rest
      \<and> committed_rows (snd (wave_loop e n mk_row tbl to_insert i w)) = committed_rows w @ later"
proof (induction "length to_insert - i" arbitrary: i w rule: less_induct)
  case less
  show ?case
  proof (cases "i < length to_insert")
    case False
    then have "wave_loop e n mk_row tbl to_insert i w = (Inr (), w)"
      by (simp add: wave_loop_done)
    then show ?thesis
      by simp
  next
    case True
    let ?batch = "take n (drop i to_insert)"
    let ?texts = "map (\<lambda>(doc, idx, chunk). chunk) ?batch"
    show ?thesis
    proof (cases "segment_rows e mk_row (calls w) ?batch" rule: failures_cases)
      case failed
      from wave_loop_failed [OF assms True failed, of tbl] obtain err rows where
        "wave_loop e n mk_row tbl to_insert i w
          = (Inl err, w\<lparr>uncommitted := uncommitted w @ map (Pair tbl) rows,
               calls := calls w + length ?batch,
               log := log w @ Gather (calls w) ?texts # map (Insert tbl) rows\<rparr>)"
        by blast
      then show ?thesis
        by (simp add: committed_rows_def)
    next
      case (ok rows1)
      define w2 where "w2 = w\<lparr>db_file := Some (committed_rows w @ uncommitted w @ map (Pair tbl) rows1),
            uncommitted := [],
            calls := calls w + length rows1,
            log := log w @ Gather (calls w) ?texts # map (Insert tbl) rows1 @ [Commit]\<rparr>"
      have step: "wave_loop e n mk_row tbl to_insert i w = wave_loop e n mk_row tbl to_insert (i + n) w2"
        unfolding w2_def by (rule wave_loop_next [OF assms True ok])
      have "length to_insert - (i + n) < length to_insert - i"
        using True assms by simp
      from less [OF this, of w2] obtain rest later where
        "log (snd (wave_loop e n mk_row tbl to_insert (i + n) w2)) = log w2 @ rest"
        "committed_rows (snd (wave_loop e n mk_row tbl to_insert (i + n) w2)) = committed_rows w2 @ later"
        by blast
      then show ?thesis
        by (simp add: step w2_def committed_rows_def)
    qed
  qed
qed

lemma wave_loop_starts_with_gather:
  assumes "0 < n" and "i < length to_insert"
  shows "\<exists>rest later.
        log (snd (wave_loop e n mk_row tbl to_insert i w))
          = log w @ Gather (calls w) (map (\<lambda>(doc, idx, chunk). chunk) (take n (drop i to_insert))) # rest
      \<and> committed_rows (snd (wave_loop e n mk_row tbl to_insert i w)) = committed_rows w @ later"
proof -
  let ?batch = "take n (drop i to_insert)"
  let ?texts = "map (\<lambda>(doc, idx, chunk). chunk) ?batch"
  show ?thesis
  proof (cases "segment_rows e mk_row (calls w) ?batch" rule: failures_cases)
    case failed
    from wave_loop_failed [OF assms failed, of tbl] obtain err rows where
      "wave_loop e n mk_row tbl to_insert i w
        = (Inl err, w\<lparr>uncommitted := uncommitted w @ map (Pair tbl) rows,
             calls := calls w + length ?batch,
             log := log w @ Gather (calls w) ?texts # map (Insert tbl) rows\<rparr>)"
      by blast
    then show ?thesis
      by (simp add: committed_rows_def)
  next
    case (ok rows1)
    define w2 where "w2 = w\<lparr>db_file := Some (committed_rows w @ uncommitted w @ map (Pair tbl) rows1),
          uncommitted := [],
          calls := calls w + length rows1,
          log := log w @ Gather (calls w) ?texts # map (Insert tbl) rows1 @ [Commit]\<rparr>"
    have step: "wave_loop e n mk_row tbl to_insert i w = wave_loop e n mk_row tbl to_insert (i + n) w2"
      unfolding w2_def by (rule wave_loop_next [OF assms ok])
    from wave_loop_grows [OF assms(1), of e mk_row tbl to_insert "i + n" w2] obtain rest later where
      "log (snd (wave_loop e n mk_row tbl to_insert (i + n) w2)) = log w2 @ rest"
      "committed_rows (snd (wave_loop e n mk_row tbl to_insert (i + n) w2)) = committed_rows w2 @ later"
      by blast
    then show ?thesis
      by (simp add: step w2_def committed_rows_def)
  qed
qed

lemma process_waves_terminal_failure:
  assumes "0 < n" and "j < length to_insert"
    and "embedding_result e (calls w + j) ((\<lambda>(doc, idx, chunk). chunk) (to_insert ! j))
         = Inl Embedding_failed"
    and "map Inr rows = segment_rows e mk_row (calls w) (take (j div n * n) to_insert)"
  shows "process_waves e n mk_row tbl to_insert w
     = (Inl Embedding_failed,
        (after_waves tbl n (map (\<lambda>(doc, idx, chunk). chunk) (take (j div n * n) to_insert)) rows w)
          \<lparr>calls := calls w + j div n * n + length (take n (drop (j div n * n) to_insert)),
           log := log w
             @ waves_log tbl n (calls w)
                 (map (\<lambda>(doc, idx, chunk). chunk) (take (j div n * n) to_insert)) rows
             @ [Gather (calls w + j div n * n)
                  (map (\<lambda>(doc, idx, chunk). chunk) (take n (drop (j div n * n) to_insert)))]\<rparr>)"
proof -
  let ?k = "j div n"
  let ?batch = "take n (drop (?k * n) to_insert)"
  let ?texts = "map (\<lambda>(doc, idx, chunk). chunk) ?batch"
  let ?wk = "after_waves tbl n (map (\<lambda>(doc, idx, chunk). chunk) (take (?k * n) to_insert)) rows w"
  have le: "?k * n \<le> j"
    by (simp add: div_times_less_eq_dividend)
  with assms(2) have more: "?k * n < length to_insert"
    by linarith
  have calls: "calls ?wk = calls w + ?k * n"
    using more by (simp add: after_waves_def)
  have log: "log ?wk = log w @ waves_log tbl n (calls w)
      (map (\<lambda>(doc, idx, chunk). chunk) (take (?k * n) to_insert)) rows"
    by (simp add: after_waves_def)
  have run: "wave_loop e n mk_row tbl to_insert 0 w = wave_loop e n mk_row tbl to_insert (?k * n) ?wk"
    by (rule wave_loop_waves [OF assms(1,4)])
  define p where "p = j - ?k * n"
  have p_lt: "p < n"
    using assms(1) by (simp add: p_def) (metis mod_less_divisor minus_div_mult_eq_mod)
  have j_eq: "j = ?k * n + p"
    using le by (simp add: p_def)
  have p_len: "p < length ?batch"
    using p_lt assms(2) j_eq by simp
  have nth: "?batch ! p = to_insert ! j"
    using p_lt p_len by (simp add: j_eq [symmetric])
  have "in_order e (calls ?wk) ?texts ! p = Inl Embedding_failed"
    using in_order_nth [OF p_len, of e "calls ?wk"] nth assms(3) calls j_eq
    by (simp add: add.assoc)
  then have "Inl Embedding_failed \<in> set (in_order e (calls ?wk) ?texts)"
    using p_len by (metis length_in_order length_map nth_mem)
  then have bad: "failures (in_order e (calls ?wk) ?texts) \<noteq> []"
    using set_failures [of "in_order e (calls ?wk) ?texts"] by auto
  then have "failures (segment_rows e mk_row (calls ?wk) ?batch) \<noteq> []"
    by (rule failed_embedding_fails_row)
  from wave_loop_failed [OF assms(1) more this, of tbl] bad
  have fail: "wave_loop e n mk_row tbl to_insert (?k * n) ?wk
     = (Inl Embedding_failed,
         ?wk\<lparr>uncommitted := uncommitted ?wk @ map (Pair tbl) [],
           calls := calls ?wk + length ?batch,
           log := log ?wk @ Gather (calls ?wk) ?texts # map (Insert tbl) []\<rparr>)"
    by auto
  have "?wk\<lparr>uncommitted := uncommitted ?wk @ map (Pair tbl) [],
           calls := calls ?wk + length ?batch,
           log := log ?wk @ Gather (calls ?wk) ?texts # map (Insert tbl) []\<rparr>
      = ?wk\<lparr>calls := calls w + ?k * n + length ?batch,
           log := log w
             @ waves_log tbl n (calls w)
                 (map (\<lambda>(doc, idx, chunk). chunk) (take (?k * n) to_insert)) rows
             @ [Gather (calls w + ?k * n) ?texts]\<rparr>"
    by (simp only: calls log) simp
  with run fail assms(1) show ?thesis
    by (simp only: process_waves_def) simp
qed

text \<open>
  Claim C4. A run of the scheduler that returns normally on \<open>M\<close> segments with the step
  \<open>n > 0\<close> dispatched exactly the ceiling of \<open>M / n\<close> waves, each of at most \<open>n\<close>
  texts, which are the texts of the segments in their order; the rows it added to the
  store are, position by position, the rows of the segments, each with the embedding
  that the call of this very segment returned; and the outcome is the same whatever the
  completion times of the calls are.
\<close>

theorem process_waves_positional:
  assumes "0 < n"
    and "process_waves e n mk_row tbl to_insert w = (Inr (), w')"
  shows "\<exists>rows events.
        log w' = log w @ events
      \<and> int (length (gathered events)) = \<lceil>real (length to_insert) / real n\<rceil>
      \<and> (\<forall>texts\<in>set (gathered events). length texts \<le> n)
      \<and> concat (gathered events) = map (\<lambda>(doc, idx, chunk). chunk) to_insert
      \<and> map Inr rows = segment_rows e mk_row (calls w) to_insert
      \<and> committed_rows w' @ uncommitted w' = committed_rows w @ uncommitted w @ map (Pair tbl) rows
      \<and> (to_insert \<noteq> [] \<longrightarrow> uncommitted w' = [])
      \<and> (\<forall>l. process_waves (e\<lparr>latency := l\<rparr>) n mk_row tbl to_insert w = (Inr (), w'))"
proof -
  from assms have "wave_loop e n mk_row tbl to_insert 0 w = (Inr (), w')"
    by (simp add: process_waves_def)
  from wave_loop_success [OF assms(1) this] obtain rows events where
      "log w' = log w @ events"
      "int (length (gathered events)) = \<lceil>real (length to_insert) / real n\<rceil>"
      "\<forall>texts\<in>set (gathered events). length texts \<le> n"
      "concat (gathered events) = map (\<lambda>(doc, idx, chunk). chunk) to_insert"
      "map Inr rows = segment_rows e mk_row (calls w) to_insert"
      "committed_rows w' @ uncommitted w' = committed_rows w @ uncommitted w @ map (Pair tbl) rows"
      "to_insert \<noteq> [] \<longrightarrow> uncommitted w' = []"
    by (simp only: drop_0 minus_nat.diff_0 length_greater_0_conv) blast
  moreover have "\<forall>l. process_waves (e\<lparr>latency := l\<rparr>) n mk_row tbl to_insert w = (Inr (), w')"
  proof
    fix l
    have "endpoint (e\<lparr>latency := l\<rparr>) = endpoint e"
      by simp
    from process_waves_endpoint [OF this] assms(2)
    show "process_waves (e\<lparr>latency := l\<rparr>) n mk_row tbl to_insert w = (Inr (), w')"
      by (simp only:)
  qed
  ultimately show ?thesis
    by blast
qed

text \<open>
  An instance of C4: three segments with the step 2, in an environment where the calls
  complete in reverse order.
\<close>

theorem process_waves_positional_witness:
  "\<exists>w' rows events.
      process_waves example_env 2 discourse_row Discourse_chunks
        [example_segment 1 ''one'', example_segment 2 ''two'', example_segment 3 ''three'']
        old_store = (Inr (), w')
    \<and> log w' = log old_store @ events
    \<and> int (length (gathered events)) = 2
    \<and> (\<forall>texts\<in>set (gathered events). length texts \<le> 2)
    \<and> concat (gathered events) = [''one'', ''two'', ''three'']
    \<and> map Inr rows = segment_rows example_env discourse_row (calls old_store)
         [example_segment 1 ''one'', example_segment 2 ''two'', example_segment 3 ''three'']
    \<and> committed_rows w' @ uncommitted w'
        = committed_rows old_store @ uncommitted old_store @ map (Pair Discourse_chunks) rows
    \<and> uncommitted w' = []
    \<and> (\<forall>l. process_waves (example_env\<lparr>latency := l\<rparr>) 2 discourse_row Discourse_chunks
        [example_segment 1 ''one'', example_segment 2 ''two'', example_segment 3 ''three'']
        old_store = (Inr (), w'))"
proof -
  let ?segs = "[example_segment 1 ''one'', example_segment 2 ''two'', example_segment 3 ''three'']"
  have "fst (process_waves example_env 2 discourse_row Discourse_chunks ?segs old_store) = Inr ()"
    by code_simp
  then obtain w' where
    run: "process_waves example_env 2 discourse_row Discourse_chunks ?segs old_store = (Inr (), w')"
    by (metis prod.collapse)
  have pos: "(0::nat) < 2"
    by simp
  have "\<lceil>real (length ?segs) / real (2::nat)\<rceil> = 2"
    by (simp add: ceiling_eq_iff)
  moreover have "map (\<lambda>(doc, idx, chunk). chunk) ?segs = [''one'', ''two'', ''three'']"
    by (simp add: example_segment_def)
  ultimately show ?thesis
    using process_waves_positional [OF pos run] run
    by (simp only:) auto
qed

section \<open>Properties of a run\<close>

lemma concurrent_requests_pos: "0 < CONCURRENT_REQUESTS"
  by (simp add: CONCURRENT_REQUESTS_def)

lemma after_waves_store:
  assumes "map Inr rows = segment_rows e mk_row c segs"
    and "db_file w = Some stored" and "uncommitted w = []"
  shows "db_file (after_waves tbl n (map (\<lambda>(doc, idx, chunk). chunk) segs) rows w)
           = Some (stored @ map (Pair tbl) rows)"
    and "uncommitted (after_waves tbl n (map (\<lambda>(doc, idx, chunk). chunk) segs) rows w) = []"
proof -
  have "length rows = length segs"
    using arg_cong [OF assms(1), of length] by simp
  then have "segs = [] \<Longrightarrow> rows = []"
    by auto
  then show "db_file (after_waves tbl n (map (\<lambda>(doc, idx, chunk). chunk) segs) rows w)
           = Some (stored @ map (Pair tbl) rows)"
    and "uncommitted (after_waves tbl n (map (\<lambda>(doc, idx, chunk). chunk) segs) rows w) = []"
    using assms(2,3) by (auto simp: after_waves_def committed_rows_def)
qed

text \<open>What the example inputs evaluate to.\<close>

lemma example_chunks:
  "chunk_text ''one'' CHUNK_SIZE CHUNK_OVERLAP = Some [''one'']"
  "chunk_text ''two'' CHUNK_SIZE CHUNK_OVERLAP = Some [''two'']"
  "chunk_text ''three'' CHUNK_SIZE CHUNK_OVERLAP = Some [''three'']"
  "chunk_text ''four'' CHUNK_SIZE CHUNK_OVERLAP = Some [''four'']"
  "chunk_text ''five'' CHUNK_SIZE CHUNK_OVERLAP = Some [''five'']"
  "chunk_text (strip_front_matter ''text'') CHUNK_SIZE CHUNK_OVERLAP = Some [''text'']"
  by code_simp+

lemma example_content:
  "lookup (example_post k body) ''content'' = Inr (JStr body)"
  by (simp add: lookup_def example_post_def)

lemma example_collected:
  "collect_discourse example_posts [] = Some (Inr example_segments)"
  by (simp add: example_posts_def example_segments_def example_segment_def example_content
        example_chunks segments_of_def enumerate_eq_zip)

lemma example_collected_one:
  "collect_discourse [example_post 1 ''one''] [] = Some (Inr [example_segment 1 ''one''])"
  by (simp add: example_segment_def example_content example_chunks segments_of_def
        enumerate_eq_zip)

lemma example_collected_pages:
  "collect_markdown page_failure_env [example_page ''a.md''] [] []
     = Some (Inr [page_segment], [''a.md''])"
  "collect_markdown pages_env example_pages [] [] = Some (Inr [page_segment], [''a.md''])"
  by (simp_all add: page_failure_env_def pages_env_def example_pages_def example_page_def
        page_segment_def lookup_def example_chunks segments_of_def enumerate_eq_zip)

lemma example_failure:
  "embedding_result example_env (calls old_store + 4)
     ((\<lambda>(doc, idx, chunk). chunk) (example_segments ! 4)) = Inl Embedding_failed"
  by code_simp

lemma example_rows:
  "map Inr [example_row 1 ''one'', example_row 2 ''two'', example_row 3 ''three'',
            example_row 4 ''four'']
   = segment_rows example_env discourse_row (calls old_store)
       (take (4 div CONCURRENT_REQUESTS * CONCURRENT_REQUESTS) example_segments)"
  by code_simp

lemma page_failure:
  "embedding_result page_failure_env
     (calls old_store + length [example_segment 1 ''one''] + 0)
     ((\<lambda>(doc, idx, chunk). chunk) ([page_segment] ! 0)) = Inl Embedding_failed"
  by code_simp

lemma page_failure_rows:
  "map Inr [example_row 1 ''one'']
   = segment_rows page_failure_env discourse_row (calls old_store) [example_segment 1 ''one'']"
  "map Inr []
   = segment_rows page_failure_env markdown_row
       (calls old_store + length [example_segment 1 ''one''])
       (take (0 div CONCURRENT_REQUESTS * CONCURRENT_REQUESTS) [page_segment])"
  by code_simp+

lemma example_waves_log:
  "waves_log Discourse_chunks CONCURRENT_REQUESTS (calls old_store)
     (map (\<lambda>(doc, idx, chunk). chunk)
        (take (4 div CONCURRENT_REQUESTS * CONCURRENT_REQUESTS) example_segments))
     [example_row 1 ''one'', example_row 2 ''two'', example_row 3 ''three'', example_row 4 ''four'']
   = [Gather 0 [''one'', ''two'', ''three'', ''four''],
      Insert Discourse_chunks (example_row 1 ''one''),
      Insert Discourse_chunks (example_row 2 ''two''),
      Insert Discourse_chunks (example_row 3 ''three''),
      Insert Discourse_chunks (example_row 4 ''four''), Commit]"
  by (simp add: waves_log.simps CONCURRENT_REQUESTS_def example_segments_def example_segment_def
        old_store_def)

lemma page_failure_waves_log:
  "waves_log Discourse_chunks CONCURRENT_REQUESTS (calls old_store)
     (map (\<lambda>(doc, idx, chunk). chunk) [example_segment 1 ''one'']) [example_row 1 ''one'']
   = [Gather 0 [''one''], Insert Discourse_chunks (example_row 1 ''one''), Commit]"
  "waves_log Markdown_chunks CONCURRENT_REQUESTS
     (calls old_store + length [example_segment 1 ''one''])
     (map (\<lambda>(doc, idx, chunk). chunk)
        (take (0 div CONCURRENT_REQUESTS * CONCURRENT_REQUESTS) [page_segment])) [] = []"
  by (simp_all add: waves_log.simps CONCURRENT_REQUESTS_def example_segment_def old_store_def)

lemma good_rows:
  "map Inr [example_row 1 ''one'', example_row 2 ''two'']
   = segment_rows pages_env discourse_row (calls old_store) (take (1 * 2) example_segments)"
  by code_simp

lemma good_waves_log:
  "waves_log Discourse_chunks 2 (calls old_store)
     (map (\<lambda>(doc, idx, chunk). chunk) (take (1 * 2) example_segments))
     [example_row 1 ''one'', example_row 2 ''two'']
   = [Gather 0 [''one'', ''two''], Insert Discourse_chunks (example_row 1 ''one''),
      Insert Discourse_chunks (example_row 2 ''two''), Commit]"
  by (simp add: waves_log.simps example_segments_def example_segment_def old_store_def)

text \<open>
  Claim C5. A run with an API key in which the call of one segment ends in the failure,
  its retries exhausted, ends with this failure, whichever corpus the segment belongs to;
  the rows of the waves committed before are the content of the store file, and nothing
  is done after the dispatch of the failing wave.

  First part, the segment \<open>j\<close> of the forum corpus: if the waves before the wave of \<open>j\<close>
  stored their rows, the run returns the failure, the store file holds exactly these rows,
  nothing is left uncommitted, and the effects of the run are, in this order and with
  nothing after: the removal of an older store file, the creation of the new one, the
  reading of the posts, the earlier waves (for each its dispatch, its inserts and its
  commit) and the dispatch of the wave of \<open>j\<close>. So no row of the failing wave is inserted,
  no later wave is dispatched and the page corpus is not read.

  Second part, the segment \<open>i\<close> of the page corpus, after a forum corpus whose file does
  not exist or whose segments all stored their rows: the run returns the failure, the
  store file holds the rows of the forum corpus followed by the rows of the page waves
  before the wave of \<open>i\<close>, nothing is left uncommitted, and the effects are those of the
  forum corpus, the reading of the metadata and of the pages, the earlier page waves and
  the dispatch of the wave of \<open>i\<close>, with nothing after.

  A row is stored by an insert that binds each of its values; a segment whose tuple of
  values cannot be built or bound has no row.
\<close>

theorem terminal_failure_halts_run:
  assumes "api_key e = Some key" and "key \<noteq> []"
  shows "(discourse_json e = Holds posts
        \<and> collect_discourse posts [] = Some (Inr segs)
        \<and> j < length segs
        \<and> embedding_result e (calls w + j) ((\<lambda>(doc, idx, chunk). chunk) (segs ! j))
            = Inl Embedding_failed
        \<and> map Inr rows = segment_rows e discourse_row (calls w)
             (take (j div CONCURRENT_REQUESTS * CONCURRENT_REQUESTS) segs)
      \<longrightarrow> (\<exists>w'. run e w = Some (Inl Embedding_failed, w')
            \<and> db_file w' = Some (map (Pair Discourse_chunks) rows)
            \<and> uncommitted w' = []
            \<and> log w' = log w
                 @ (if db_file w \<noteq> None then [Removed_db] else [])
                 @ [Created_db, Read_file DISCOURSE_JSON]
                 @ waves_log Discourse_chunks CONCURRENT_REQUESTS (calls w)
                     (map (\<lambda>(doc, idx, chunk). chunk)
                        (take (j div CONCURRENT_REQUESTS * CONCURRENT_REQUESTS) segs)) rows
                 @ [Gather (calls w + j div CONCURRENT_REQUESTS * CONCURRENT_REQUESTS)
                      (map (\<lambda>(doc, idx, chunk). chunk)
                         (take CONCURRENT_REQUESTS
                            (drop (j div CONCURRENT_REQUESTS * CONCURRENT_REQUESTS) segs)))]))
     \<and> ((discourse_json e = Absent \<and> segs = []
           \<or> discourse_json e = Holds posts \<and> collect_discourse posts [] = Some (Inr segs))
        \<and> map Inr rows = segment_rows e discourse_row (calls w) segs
        \<and> metadata_json e = Holds metadata
        \<and> collect_markdown e metadata [] [] = Some (Inr pages, opened)
        \<and> i < length pages
        \<and> embedding_result e (calls w + length segs + i) ((\<lambda>(doc, idx, chunk). chunk) (pages ! i))
            = Inl Embedding_failed
        \<and> map Inr page_rows = segment_rows e markdown_row (calls w + length segs)
             (take (i div CONCURRENT_REQUESTS * CONCURRENT_REQUESTS) pages)
      \<longrightarrow> (\<exists>w'. run e w = Some (Inl Embedding_failed, w')
            \<and> db_file w' = Some (map (Pair Discourse_chunks) rows @ map (Pair Markdown_chunks) page_rows)
            \<and> uncommitted w' = []
            \<and> log w' = log w
                 @ (if db_file w \<noteq> None then [Removed_db] else [])
                 @ [Created_db]
                 @ (if discourse_json e = Absent then [] else [Read_file DISCOURSE_JSON])
                 @ waves_log Discourse_chunks CONCURRENT_REQUESTS (calls w)
                     (map (\<lambda>(doc, idx, chunk). chunk) segs) rows
                 @ Read_file METADATA_JSON
                   # map (\<lambda>filename. Read_file (MARKDOWN_DIR @ ''/'' @ filename)) opened
                 @ waves_log Markdown_chunks CONCURRENT_REQUESTS (calls w + length segs)
                     (map (\<lambda>(doc, idx, chunk). chunk)
                        (take (i div CONCURRENT_REQUESTS * CONCURRENT_REQUESTS) pages)) page_rows
                 @ [Gather (calls w + length segs + i div CONCURRENT_REQUESTS * CONCURRENT_REQUESTS)
                      (map (\<lambda>(doc, idx, chunk). chunk)
                         (take CONCURRENT_REQUESTS
                            (drop (i div CONCURRENT_REQUESTS * CONCURRENT_REQUESTS) pages)))]))"
proof (intro conjI impI)
  let ?N = CONCURRENT_REQUESTS
  let ?chunk = "\<lambda>(doc, idx, chunk). chunk :: string"
  define w1 where "w1 = (if db_file w \<noteq> None then w\<lparr>db_file := None, log := log w @ [Removed_db]\<rparr> else w)"
  define w2 where "w2 = w1\<lparr>db_file := Some [], uncommitted := [], log := log w1 @ [Created_db]\<rparr>"
  define w3 where "w3 = w2\<lparr>log := log w2 @ [Read_file DISCOURSE_JSON]\<rparr>"
  have w2: "calls w2 = calls w" "db_file w2 = Some []" "uncommitted w2 = []"
    "log w2 = log w @ (if db_file w \<noteq> None then [Removed_db] else []) @ [Created_db]"
    by (simp_all add: w1_def w2_def)
  have w3: "calls w3 = calls w" "db_file w3 = Some []" "uncommitted w3 = []"
    "log w3 = log w @ (if db_file w \<noteq> None then [Removed_db] else [])
       @ [Created_db, Read_file DISCOURSE_JSON]"
    by (simp_all add: w1_def w2_def w3_def)
  have main: "main e w = (case process_discourse e w2 of
           None \<Rightarrow> None
         | Some (Inl err, w3) \<Rightarrow> Some (Inl err, w3)
         | Some (Inr u, w3) \<Rightarrow> process_markdown e w3)"
    by (simp add: main_def w1_def w2_def Let_def)
  have run: "run e w = main e w"
    using assms by (simp add: run_def)
  {
    assume a: "discourse_json e = Holds posts
        \<and> collect_discourse posts [] = Some (Inr segs)
        \<and> j < length segs
        \<and> embedding_result e (calls w + j) (?chunk (segs ! j)) = Inl Embedding_failed
        \<and> map Inr rows = segment_rows e discourse_row (calls w) (take (j div ?N * ?N) segs)"
    let ?done = "take (j div ?N * ?N) segs"
    let ?wk = "after_waves Discourse_chunks ?N (map ?chunk ?done) rows w3"
    let ?w' = "?wk\<lparr>calls := calls w3 + j div ?N * ?N + length (take ?N (drop (j div ?N * ?N) segs)),
           log := log w3 @ waves_log Discourse_chunks ?N (calls w3) (map ?chunk ?done) rows
             @ [Gather (calls w3 + j div ?N * ?N)
                  (map ?chunk (take ?N (drop (j div ?N * ?N) segs)))]\<rparr>"
    from a have failed: "embedding_result e (calls w3 + j) (?chunk (segs ! j)) = Inl Embedding_failed"
      and built: "map Inr rows = segment_rows e discourse_row (calls w3) ?done"
      and j: "j < length segs"
      by (simp_all add: w3)
    have "process_waves e ?N discourse_row Discourse_chunks segs w3 = (Inl Embedding_failed, ?w')"
      by (rule process_waves_terminal_failure [OF concurrent_requests_pos j failed built])
    with a have "process_discourse e w2 = Some (Inl Embedding_failed, ?w')"
      by (simp add: process_discourse_def w3_def)
    with main run have "run e w = Some (Inl Embedding_failed, ?w')"
      by simp
    moreover have "db_file ?w' = Some (map (Pair Discourse_chunks) rows)"
      using after_waves_store(1) [OF built w3(2,3)] by simp
    moreover have "uncommitted ?w' = []"
      using after_waves_store(2) [OF built w3(2,3)] by simp
    moreover have "log ?w' = log w
                 @ (if db_file w \<noteq> None then [Removed_db] else [])
                 @ [Created_db, Read_file DISCOURSE_JSON]
                 @ waves_log Discourse_chunks ?N (calls w) (map ?chunk ?done) rows
                 @ [Gather (calls w + j div ?N * ?N)
                      (map ?chunk (take ?N (drop (j div ?N * ?N) segs)))]"
      by (simp add: w3)
    ultimately show "\<exists>w'. run e w = Some (Inl Embedding_failed, w')
            \<and> db_file w' = Some (map (Pair Discourse_chunks) rows)
            \<and> uncommitted w' = []
            \<and> log w' = log w
                 @ (if db_file w \<noteq> None then [Removed_db] else [])
                 @ [Created_db, Read_file DISCOURSE_JSON]
                 @ waves_log Discourse_chunks ?N (calls w) (map ?chunk ?done) rows
                 @ [Gather (calls w + j div ?N * ?N)
                      (map ?chunk (take ?N (drop (j div ?N * ?N) segs)))]"
      by blast
  }
  {
    assume a: "(discourse_json e = Absent \<and> segs = []
           \<or> discourse_json e = Holds posts \<and> collect_discourse posts [] = Some (Inr segs))
        \<and> map Inr rows = segment_rows e discourse_row (calls w) segs
        \<and> metadata_json e = Holds metadata
        \<and> collect_markdown e metadata [] [] = Some (Inr pages, opened)
        \<and> i < length pages
        \<and> embedding_result e (calls w + length segs + i) (?chunk (pages ! i)) = Inl Embedding_failed
        \<and> map Inr page_rows = segment_rows e markdown_row (calls w + length segs)
             (take (i div ?N * ?N) pages)"
    define w4 where "w4 = (if discourse_json e = Absent then w2 else w3)"
    have w4: "calls w4 = calls w" "db_file w4 = Some []" "uncommitted w4 = []"
      "log w4 = log w @ (if db_file w \<noteq> None then [Removed_db] else []) @ [Created_db]
         @ (if discourse_json e = Absent then [] else [Read_file DISCOURSE_JSON])"
      by (simp_all add: w4_def w2 w3)
    let ?w5 = "after_waves Discourse_chunks ?N (map ?chunk segs) rows w4"
    from a have built: "map Inr rows = segment_rows e discourse_row (calls w4) segs"
      by (simp add: w4)
    have forum: "process_discourse e w2 = Some (Inr (), ?w5)"
    proof (cases "discourse_json e = Absent")
      case True
      with a have "segs = []" by auto
      with True show ?thesis
        by (simp add: process_discourse_def w4_def)
    next
      case False
      with a have posts: "discourse_json e = Holds posts"
        "collect_discourse posts [] = Some (Inr segs)"
        by auto
      have "w4 = w3"
        using False by (simp add: w4_def)
      with built have "process_waves e ?N discourse_row Discourse_chunks segs w3 = (Inr (), ?w5)"
        using process_waves_all_built [OF concurrent_requests_pos, of rows e discourse_row w3 segs
            Discourse_chunks]
        by simp
      with posts show ?thesis
        by (simp add: process_discourse_def w3_def)
    qed
    have w5: "calls ?w5 = calls w + length segs"
      "db_file ?w5 = Some (map (Pair Discourse_chunks) rows)"
      "uncommitted ?w5 = []"
      "log ?w5 = log w4 @ waves_log Discourse_chunks ?N (calls w) (map ?chunk segs) rows"
      using after_waves_store [OF built w4(2,3)] by (simp_all add: after_waves_def w4(1))
    define w6 where "w6 = ?w5\<lparr>log := log ?w5 @ Read_file METADATA_JSON
        # map (\<lambda>filename. Read_file (MARKDOWN_DIR @ ''/'' @ filename)) opened\<rparr>"
    have w6: "calls w6 = calls w + length segs"
      "db_file w6 = Some (map (Pair Discourse_chunks) rows)"
      "uncommitted w6 = []"
      "log w6 = log w4 @ waves_log Discourse_chunks ?N (calls w) (map ?chunk segs) rows
         @ Read_file METADATA_JSON
           # map (\<lambda>filename. Read_file (MARKDOWN_DIR @ ''/'' @ filename)) opened"
      using w5 by (simp_all add: w6_def)
    let ?done = "take (i div ?N * ?N) pages"
    let ?wk = "after_waves Markdown_chunks ?N (map ?chunk ?done) page_rows w6"
    let ?w' = "?wk\<lparr>calls := calls w6 + i div ?N * ?N + length (take ?N (drop (i div ?N * ?N) pages)),
           log := log w6 @ waves_log Markdown_chunks ?N (calls w6) (map ?chunk ?done) page_rows
             @ [Gather (calls w6 + i div ?N * ?N)
                  (map ?chunk (take ?N (drop (i div ?N * ?N) pages)))]\<rparr>"
    from a have failed: "embedding_result e (calls w6 + i) (?chunk (pages ! i)) = Inl Embedding_failed"
      and page_built: "map Inr page_rows = segment_rows e markdown_row (calls w6) ?done"
      and i: "i < length pages"
      by (simp_all add: w6(1))
    have "process_waves e ?N markdown_row Markdown_chunks pages w6 = (Inl Embedding_failed, ?w')"
      by (rule process_waves_terminal_failure [OF concurrent_requests_pos i failed page_built])
    with a have "process_markdown e ?w5 = Some (Inl Embedding_failed, ?w')"
      by (simp add: process_markdown_def w6_def)
    with main run forum have "run e w = Some (Inl Embedding_failed, ?w')"
      by simp
    moreover have "db_file ?w'
        = Some (map (Pair Discourse_chunks) rows @ map (Pair Markdown_chunks) page_rows)"
      using after_waves_store(1) [OF page_built w6(2,3)] by simp
    moreover have "uncommitted ?w' = []"
      using after_waves_store(2) [OF page_built w6(2,3)] by simp
    moreover have "log ?w' = log w
                 @ (if db_file w \<noteq> None then [Removed_db] else [])
                 @ [Created_db]
                 @ (if discourse_json e = Absent then [] else [Read_file DISCOURSE_JSON])
                 @ waves_log Discourse_chunks ?N (calls w) (map ?chunk segs) rows
                 @ Read_file METADATA_JSON
                   # map (\<lambda>filename. Read_file (MARKDOWN_DIR @ ''/'' @ filename)) opened
                 @ waves_log Markdown_chunks ?N (calls w + length segs) (map ?chunk ?done) page_rows
                 @ [Gather (calls w + length segs + i div ?N * ?N)
                      (map ?chunk (take ?N (drop (i div ?N * ?N) pages)))]"
      by (simp add: w6 w4(4))
    ultimately show "\<exists>w'. run e w = Some (Inl Embedding_failed, w')
            \<and> db_file w' = Some (map (Pair Discourse_chunks) rows @ map (Pair Markdown_chunks) page_rows)
            \<and> uncommitted w' = []
            \<and> log w' = log w
                 @ (if db_file w \<noteq> None then [Removed_db] else [])
                 @ [Created_db]
                 @ (if discourse_json e = Absent then [] else [Read_file DISCOURSE_JSON])
                 @ waves_log Discourse_chunks ?N (calls w) (map ?chunk segs) rows
                 @ Read_file METADATA_JSON
                   # map (\<lambda>filename. Read_file (MARKDOWN_DIR @ ''/'' @ filename)) opened
                 @ waves_log Markdown_chunks ?N (calls w + length segs) (map ?chunk ?done) page_rows
                 @ [Gather (calls w + length segs + i div ?N * ?N)
                      (map ?chunk (take ?N (drop (i div ?N * ?N) pages)))]"
      by blast
  }
qed

text \<open>
  Two instances of C5. With five posts of which the fifth fails, the first wave of four
  rows is in the store and the dispatch of the second wave is the last effect. With one
  post and one page whose call fails, the row of the post is in the store and the
  dispatch of the wave of the page is the last effect.
\<close>

theorem terminal_failure_halts_run_witness:
  "(\<exists>w'. run example_env old_store = Some (Inl Embedding_failed, w')
      \<and> db_file w' = Some (map (Pair Discourse_chunks)
           [example_row 1 ''one'', example_row 2 ''two'', example_row 3 ''three'',
            example_row 4 ''four''])
      \<and> uncommitted w' = []
      \<and> log w' = [Removed_db, Created_db, Read_file DISCOURSE_JSON,
           Gather 0 [''one'', ''two'', ''three'', ''four''],
           Insert Discourse_chunks (example_row 1 ''one''),
           Insert Discourse_chunks (example_row 2 ''two''),
           Insert Discourse_chunks (example_row 3 ''three''),
           Insert Discourse_chunks (example_row 4 ''four''), Commit,
           Gather 4 [''five'']])
   \<and> (\<exists>w'. run page_failure_env old_store = Some (Inl Embedding_failed, w')
      \<and> db_file w' = Some [(Discourse_chunks, example_row 1 ''one'')]
      \<and> uncommitted w' = []
      \<and> log w' = [Removed_db, Created_db, Read_file DISCOURSE_JSON,
           Gather 0 [''one''], Insert Discourse_chunks (example_row 1 ''one''), Commit,
           Read_file METADATA_JSON, Read_file (MARKDOWN_DIR @ ''/'' @ ''a.md''),
           Gather 1 [''text'']])"
proof
  have key: "api_key example_env = Some ''key''" "''key'' \<noteq> []"
    and posts: "discourse_json example_env = Holds example_posts"
    by (simp_all add: example_env_def)
  have j: "4 < length example_segments"
    by (simp add: example_segments_def)
  have last: "map (\<lambda>(doc, idx, chunk). chunk)
        (take CONCURRENT_REQUESTS
           (drop (4 div CONCURRENT_REQUESTS * CONCURRENT_REQUESTS) example_segments)) = [''five'']"
    by (simp add: CONCURRENT_REQUESTS_def example_segments_def example_segment_def)
  have first: "calls old_store + 4 div CONCURRENT_REQUESTS * CONCURRENT_REQUESTS = 4"
    by (simp add: CONCURRENT_REQUESTS_def old_store_def)
  have store: "db_file old_store \<noteq> None" "log old_store = []"
    by (simp_all add: old_store_def)
  from terminal_failure_halts_run [OF key, where posts = example_posts
      and segs = example_segments and j = 4 and w = old_store
      and rows = "[example_row 1 ''one'', example_row 2 ''two'', example_row 3 ''three'',
            example_row 4 ''four'']"]
    posts example_collected j example_failure example_rows
  show "\<exists>w'. run example_env old_store = Some (Inl Embedding_failed, w')
      \<and> db_file w' = Some (map (Pair Discourse_chunks)
           [example_row 1 ''one'', example_row 2 ''two'', example_row 3 ''three'',
            example_row 4 ''four''])
      \<and> uncommitted w' = []
      \<and> log w' = [Removed_db, Created_db, Read_file DISCOURSE_JSON,
           Gather 0 [''one'', ''two'', ''three'', ''four''],
           Insert Discourse_chunks (example_row 1 ''one''),
           Insert Discourse_chunks (example_row 2 ''two''),
           Insert Discourse_chunks (example_row 3 ''three''),
           Insert Discourse_chunks (example_row 4 ''four''), Commit,
           Gather 4 [''five'']]"
    by (simp only: example_waves_log last first store simp_thms if_True append_Nil append_Cons)
next
  let ?N = CONCURRENT_REQUESTS
  have key: "api_key page_failure_env = Some ''key''" "''key'' \<noteq> []"
    by (simp_all add: page_failure_env_def)
  have posts: "discourse_json page_failure_env = Holds [example_post 1 ''one'']"
    and pages: "metadata_json page_failure_env = Holds [example_page ''a.md'']"
    by (simp_all add: page_failure_env_def)
  have i: "0 < length [page_segment]"
    by simp
  have last: "map (\<lambda>(doc, idx, chunk). chunk)
        (take ?N (drop (0 div ?N * ?N) [page_segment])) = [''text'']"
    by (simp add: CONCURRENT_REQUESTS_def page_segment_def)
  have first: "calls old_store + length [example_segment 1 ''one''] + 0 div ?N * ?N = 1"
    by (simp add: old_store_def)
  have store: "db_file old_store \<noteq> None" "log old_store = []"
    "discourse_json page_failure_env \<noteq> Absent"
    by (simp_all add: old_store_def page_failure_env_def)
  have hyp: "(discourse_json page_failure_env = Absent \<and> [example_segment 1 ''one''] = []
           \<or> discourse_json page_failure_env = Holds [example_post 1 ''one'']
             \<and> collect_discourse [example_post 1 ''one''] [] = Some (Inr [example_segment 1 ''one'']))
        \<and> map Inr [example_row 1 ''one'']
            = segment_rows page_failure_env discourse_row (calls old_store) [example_segment 1 ''one'']
        \<and> metadata_json page_failure_env = Holds [example_page ''a.md'']
        \<and> collect_markdown page_failure_env [example_page ''a.md''] [] []
            = Some (Inr [page_segment], [''a.md''])
        \<and> 0 < length [page_segment]
        \<and> embedding_result page_failure_env
             (calls old_store + length [example_segment 1 ''one''] + 0)
             ((\<lambda>(doc, idx, chunk). chunk) ([page_segment] ! 0)) = Inl Embedding_failed
        \<and> map Inr [] = segment_rows page_failure_env markdown_row
             (calls old_store + length [example_segment 1 ''one''])
             (take (0 div ?N * ?N) [page_segment])"
    using posts pages example_collected_one example_collected_pages(1) i page_failure
      page_failure_rows
    by (intro conjI disjI2)
  from terminal_failure_halts_run [OF key, where posts = "[example_post 1 ''one'']"
      and segs = "[example_segment 1 ''one'']" and w = old_store
      and rows = "[example_row 1 ''one'']" and metadata = "[example_page ''a.md'']"
      and pages = "[page_segment]" and opened = "[''a.md'']" and i = 0 and page_rows = "[]",
      THEN conjunct2, THEN mp, OF hyp]
  obtain w' where run: "run page_failure_env old_store = Some (Inl Embedding_failed, w')"
    and db: "db_file w' = Some (map (Pair Discourse_chunks) [example_row 1 ''one'']
           @ map (Pair Markdown_chunks) [])"
    and unc: "uncommitted w' = []"
    and log: "log w' = log old_store
                 @ (if db_file old_store \<noteq> None then [Removed_db] else [])
                 @ [Created_db]
                 @ (if discourse_json page_failure_env = Absent then [] else [Read_file DISCOURSE_JSON])
                 @ waves_log Discourse_chunks ?N (calls old_store)
                     (map (\<lambda>(doc, idx, chunk). chunk) [example_segment 1 ''one''])
                     [example_row 1 ''one'']
                 @ Read_file METADATA_JSON
                   # map (\<lambda>filename. Read_file (MARKDOWN_DIR @ ''/'' @ filename)) [''a.md'']
                 @ waves_log Markdown_chunks ?N
                     (calls old_store + length [example_segment 1 ''one''])
                     (map (\<lambda>(doc, idx, chunk). chunk) (take (0 div ?N * ?N) [page_segment])) []
                 @ [Gather (calls old_store + length [example_segment 1 ''one''] + 0 div ?N * ?N)
                      (map (\<lambda>(doc, idx, chunk). chunk)
                         (take ?N (drop (0 div ?N * ?N) [page_segment])))]"
    by blast
  have db': "db_file w' = Some [(Discourse_chunks, example_row 1 ''one'')]"
    unfolding db by simp
  have log': "log w' = [Removed_db, Created_db, Read_file DISCOURSE_JSON,
           Gather 0 [''one''], Insert Discourse_chunks (example_row 1 ''one''), Commit,
           Read_file METADATA_JSON, Read_file (MARKDOWN_DIR @ ''/'' @ ''a.md''),
           Gather 1 [''text'']]"
    unfolding log page_failure_waves_log last first by (simp add: store)
  from run db' unc log'
  show "\<exists>w'. run page_failure_env old_store = Some (Inl Embedding_failed, w')
      \<and> db_file w' = Some [(Discourse_chunks, example_row 1 ''one'')]
      \<and> uncommitted w' = []
      \<and> log w' = [Removed_db, Created_db, Read_file DISCOURSE_JSON,
           Gather 0 [''one''], Insert Discourse_chunks (example_row 1 ''one''), Commit,
           Read_file METADATA_JSON, Read_file (MARKDOWN_DIR @ ''/'' @ ''a.md''),
           Gather 1 [''text'']]"
    by (intro exI [of _ w'] conjI)
qed

text \<open>
  Claim C6, on the store at each wave boundary. Let the step be \<open>n > 0\<close> and let the first
  \<open>j\<close> waves have stored their rows. Then the world \<open>wj\<close> at the boundary after these
  waves is known: processing only their segments returns normally in \<open>wj\<close>, and processing
  all the segments is continuing the loop from the index \<open>j * n\<close> in this very world. In
  \<open>wj\<close> the store holds what it held before followed by the rows of the \<open>j\<close> waves, in
  order; once a wave has run, all of it is in the store file and nothing is left
  uncommitted; and the effects so far are, wave after wave, the dispatch, the inserts and
  the commit. When segments remain, the effects of the whole run are those up to \<open>wj\<close>
  followed by the dispatch of the next wave, whose calls are numbered from \<open>j * n\<close>, and
  the rows committed at the end of the run extend those of \<open>wj\<close>: the next wave starts
  after the rows of the wave before it were committed, and what was committed stays.
  Both corpora are processed by this loop, with the step \<open>CONCURRENT_REQUESTS\<close>, on the
  segments collected from their files.
\<close>

theorem waves_committed_before_next:
  assumes "0 < n"
    and "map Inr rows = segment_rows e mk_row (calls w) (take (j * n) to_insert)"
  shows "(let texts = map (\<lambda>(doc, idx, chunk). chunk) (take (j * n) to_insert);
              wj = after_waves tbl n texts rows w
          in process_waves e n mk_row tbl (take (j * n) to_insert) w = (Inr (), wj)
           \<and> process_waves e n mk_row tbl to_insert w = wave_loop e n mk_row tbl to_insert (j * n) wj
           \<and> committed_rows wj @ uncommitted wj
               = committed_rows w @ uncommitted w @ map (Pair tbl) rows
           \<and> (0 < j \<and> to_insert \<noteq> [] \<longrightarrow>
                db_file wj = Some (committed_rows w @ uncommitted w @ map (Pair tbl) rows)
                \<and> uncommitted wj = [])
           \<and> log wj = log w @ waves_log tbl n (calls w) texts rows
           \<and> (j * n < length to_insert \<longrightarrow>
                (\<exists>rest later.
                   log (snd (process_waves e n mk_row tbl to_insert w))
                     = log wj @ Gather (calls w + j * n)
                         (map (\<lambda>(doc, idx, chunk). chunk) (take n (drop (j * n) to_insert))) # rest
                 \<and> committed_rows (snd (process_waves e n mk_row tbl to_insert w))
                     = committed_rows wj @ later)))
     \<and> (discourse_json e = Holds posts \<and> collect_discourse posts [] = Some (Inr segs) \<longrightarrow>
          process_discourse e w
          = Some (process_waves e CONCURRENT_REQUESTS discourse_row Discourse_chunks segs
                    (w\<lparr>log := log w @ [Read_file DISCOURSE_JSON]\<rparr>)))
     \<and> (metadata_json e = Holds metadata
          \<and> collect_markdown e metadata [] [] = Some (Inr pages, opened) \<longrightarrow>
          process_markdown e w
          = Some (process_waves e CONCURRENT_REQUESTS markdown_row Markdown_chunks pages
                    (w\<lparr>log := log w @ Read_file METADATA_JSON
                           # map (\<lambda>filename. Read_file (MARKDOWN_DIR @ ''/'' @ filename)) opened\<rparr>)))"
proof (intro conjI)
  let ?texts = "map (\<lambda>(doc, idx, chunk). chunk) (take (j * n) to_insert)"
  let ?wj = "after_waves tbl n ?texts rows w"
  have "length rows = length ?texts"
    using arg_cong [OF assms(2), of length] by simp
  then have rows_nil: "?texts = [] \<Longrightarrow> rows = []"
    by auto
  have 1: "process_waves e n mk_row tbl (take (j * n) to_insert) w = (Inr (), ?wj)"
    by (rule process_waves_prefix [OF assms])
  have 2: "process_waves e n mk_row tbl to_insert w = wave_loop e n mk_row tbl to_insert (j * n) ?wj"
    using assms(1) wave_loop_waves [OF assms, of tbl] by (simp add: process_waves_def)
  have 3: "committed_rows ?wj @ uncommitted ?wj
      = committed_rows w @ uncommitted w @ map (Pair tbl) rows"
    using rows_nil by (simp add: after_waves_def committed_rows_def)
  have 4: "0 < j \<and> to_insert \<noteq> [] \<longrightarrow>
      db_file ?wj = Some (committed_rows w @ uncommitted w @ map (Pair tbl) rows)
      \<and> uncommitted ?wj = []"
    using assms(1) by (simp add: after_waves_def)
  have 5: "log ?wj = log w @ waves_log tbl n (calls w) ?texts rows"
    by (simp add: after_waves_def)
  have 6: "j * n < length to_insert \<longrightarrow>
      (\<exists>rest later.
         log (snd (process_waves e n mk_row tbl to_insert w))
           = log ?wj @ Gather (calls w + j * n)
               (map (\<lambda>(doc, idx, chunk). chunk) (take n (drop (j * n) to_insert))) # rest
       \<and> committed_rows (snd (process_waves e n mk_row tbl to_insert w))
           = committed_rows ?wj @ later)"
  proof
    assume lt: "j * n < length to_insert"
    then have "calls ?wj = calls w + j * n"
      by (simp add: after_waves_def)
    with wave_loop_starts_with_gather [OF assms(1) lt, of e mk_row tbl ?wj] 2
    show "\<exists>rest later.
         log (snd (process_waves e n mk_row tbl to_insert w))
           = log ?wj @ Gather (calls w + j * n)
               (map (\<lambda>(doc, idx, chunk). chunk) (take n (drop (j * n) to_insert))) # rest
       \<and> committed_rows (snd (process_waves e n mk_row tbl to_insert w))
           = committed_rows ?wj @ later"
      by simp
  qed
  from 1 2 3 4 5 6 show "(let texts = map (\<lambda>(doc, idx, chunk). chunk) (take (j * n) to_insert);
              wj = after_waves tbl n texts rows w
          in process_waves e n mk_row tbl (take (j * n) to_insert) w = (Inr (), wj)
           \<and> process_waves e n mk_row tbl to_insert w = wave_loop e n mk_row tbl to_insert (j * n) wj
           \<and> committed_rows wj @ uncommitted wj
               = committed_rows w @ uncommitted w @ map (Pair tbl) rows
           \<and> (0 < j \<and> to_insert \<noteq> [] \<longrightarrow>
                db_file wj = Some (committed_rows w @ uncommitted w @ map (Pair tbl) rows)
                \<and> uncommitted wj = [])
           \<and> log wj = log w @ waves_log tbl n (calls w) texts rows
           \<and> (j * n < length to_insert \<longrightarrow>
                (\<exists>rest later.
                   log (snd (process_waves e n mk_row tbl to_insert w))
                     = log wj @ Gather (calls w + j * n)
                         (map (\<lambda>(doc, idx, chunk). chunk) (take n (drop (j * n) to_insert))) # rest
                 \<and> committed_rows (snd (process_waves e n mk_row tbl to_insert w))
                     = committed_rows wj @ later)))"
    unfolding Let_def by (intro conjI)
next
  show "discourse_json e = Holds posts \<and> collect_discourse posts [] = Some (Inr segs) \<longrightarrow>
          process_discourse e w
          = Some (process_waves e CONCURRENT_REQUESTS discourse_row Discourse_chunks segs
                    (w\<lparr>log := log w @ [Read_file DISCOURSE_JSON]\<rparr>))"
    by (simp add: process_discourse_def)
next
  show "metadata_json e = Holds metadata
          \<and> collect_markdown e metadata [] [] = Some (Inr pages, opened) \<longrightarrow>
          process_markdown e w
          = Some (process_waves e CONCURRENT_REQUESTS markdown_row Markdown_chunks pages
                    (w\<lparr>log := log w @ Read_file METADATA_JSON
                           # map (\<lambda>filename. Read_file (MARKDOWN_DIR @ ''/'' @ filename)) opened\<rparr>))"
    by (simp add: process_markdown_def)
qed

text \<open>
  An instance of C6: five segments with the step 2 and a store that holds one older row.
  At the boundary after the first wave the store file holds the older row and the two rows
  of the wave, and the next effect of the run is the dispatch of the third and the fourth
  text.
\<close>

theorem waves_committed_before_next_witness:
  "(\<exists>w1 rest later.
      process_waves pages_env 2 discourse_row Discourse_chunks (take 2 example_segments) old_store
        = (Inr (), w1)
    \<and> process_waves pages_env 2 discourse_row Discourse_chunks example_segments old_store
        = wave_loop pages_env 2 discourse_row Discourse_chunks example_segments 2 w1
    \<and> db_file w1 = Some [(Markdown_chunks, [JInt 0]), (Discourse_chunks, example_row 1 ''one''),
                          (Discourse_chunks, example_row 2 ''two'')]
    \<and> uncommitted w1 = []
    \<and> log w1 = [Gather 0 [''one'', ''two''], Insert Discourse_chunks (example_row 1 ''one''),
                 Insert Discourse_chunks (example_row 2 ''two''), Commit]
    \<and> log (snd (process_waves pages_env 2 discourse_row Discourse_chunks example_segments
                   old_store))
        = log w1 @ Gather 2 [''three'', ''four''] # rest
    \<and> committed_rows (snd (process_waves pages_env 2 discourse_row Discourse_chunks
                              example_segments old_store))
        = committed_rows w1 @ later)
   \<and> process_discourse pages_env old_store
       = Some (process_waves pages_env CONCURRENT_REQUESTS discourse_row Discourse_chunks
                 example_segments (old_store\<lparr>log := [Read_file DISCOURSE_JSON]\<rparr>))
   \<and> process_markdown pages_env old_store
       = Some (process_waves pages_env CONCURRENT_REQUESTS markdown_row Markdown_chunks
                 [page_segment]
                 (old_store\<lparr>log := [Read_file METADATA_JSON,
                                     Read_file (MARKDOWN_DIR @ ''/'' @ ''a.md'')]\<rparr>))"
proof -
  let ?rows = "[example_row 1 ''one'', example_row 2 ''two'']"
  let ?texts = "map (\<lambda>(doc, idx, chunk). chunk) (take (1 * 2) example_segments)"
  let ?w1 = "after_waves Discourse_chunks 2 ?texts ?rows old_store"
  let ?run = "process_waves pages_env 2 discourse_row Discourse_chunks example_segments old_store"
  have pos: "(0::nat) < 2"
    by simp
  note inst = waves_committed_before_next [OF pos good_rows, where tbl = Discourse_chunks
      and posts = example_posts and segs = example_segments and metadata = example_pages
      and pages = "[page_segment]" and opened = "[''a.md'']", unfolded Let_def]
  have one: "(1::nat) * 2 = 2"
    by simp
  have more: "(0::nat) < 1 \<and> example_segments \<noteq> []" "1 * 2 < length example_segments"
    by (simp_all add: example_segments_def)
  have posts: "discourse_json pages_env = Holds example_posts
      \<and> collect_discourse example_posts [] = Some (Inr example_segments)"
    by (simp add: pages_env_def good_env_def example_env_def example_collected)
  have pages_listed: "metadata_json pages_env = Holds example_pages"
    by (simp add: pages_env_def)
  have pages: "metadata_json pages_env = Holds example_pages
      \<and> collect_markdown pages_env example_pages [] [] = Some (Inr [page_segment], [''a.md''])"
    using example_collected_pages(2) pages_listed by (intro conjI)
  from inst have waves:
      "process_waves pages_env 2 discourse_row Discourse_chunks (take (1 * 2) example_segments)
         old_store = (Inr (), ?w1)"
      "?run = wave_loop pages_env 2 discourse_row Discourse_chunks example_segments (1 * 2) ?w1"
      "0 < 1 \<and> example_segments \<noteq> [] \<longrightarrow>
         db_file ?w1 = Some (committed_rows old_store @ uncommitted old_store
                               @ map (Pair Discourse_chunks) ?rows)
         \<and> uncommitted ?w1 = []"
      "log ?w1 = log old_store @ waves_log Discourse_chunks 2 (calls old_store) ?texts ?rows"
      "1 * 2 < length example_segments \<longrightarrow>
         (\<exists>rest later.
            log (snd ?run)
              = log ?w1 @ Gather (calls old_store + 1 * 2)
                  (map (\<lambda>(doc, idx, chunk). chunk) (take 2 (drop (1 * 2) example_segments))) # rest
          \<and> committed_rows (snd ?run) = committed_rows ?w1 @ later)"
      "discourse_json pages_env = Holds example_posts
         \<and> collect_discourse example_posts [] = Some (Inr example_segments) \<longrightarrow>
       process_discourse pages_env old_store
         = Some (process_waves pages_env CONCURRENT_REQUESTS discourse_row Discourse_chunks
                   example_segments (old_store\<lparr>log := log old_store @ [Read_file DISCOURSE_JSON]\<rparr>))"
      "metadata_json pages_env = Holds example_pages
         \<and> collect_markdown pages_env example_pages [] [] = Some (Inr [page_segment], [''a.md'']) \<longrightarrow>
       process_markdown pages_env old_store
         = Some (process_waves pages_env CONCURRENT_REQUESTS markdown_row Markdown_chunks
                   [page_segment]
                   (old_store\<lparr>log := log old_store @ Read_file METADATA_JSON
                        # map (\<lambda>filename. Read_file (MARKDOWN_DIR @ ''/'' @ filename)) [''a.md'']\<rparr>))"
    by blast+
  from waves(5) [THEN mp, OF more(2)] obtain rest later where
    next_wave: "log (snd ?run)
              = log ?w1 @ Gather (calls old_store + 1 * 2)
                  (map (\<lambda>(doc, idx, chunk). chunk) (take 2 (drop (1 * 2) example_segments))) # rest"
    and grows: "committed_rows (snd ?run) = committed_rows ?w1 @ later"
    by blast
  have 1: "process_waves pages_env 2 discourse_row Discourse_chunks (take 2 example_segments)
         old_store = (Inr (), ?w1)"
    using waves(1) by (simp only: one)
  have 2: "?run = wave_loop pages_env 2 discourse_row Discourse_chunks example_segments 2 ?w1"
    using waves(2) by (simp only: one)
  have 3: "db_file ?w1 = Some [(Markdown_chunks, [JInt 0]), (Discourse_chunks, example_row 1 ''one''),
                          (Discourse_chunks, example_row 2 ''two'')]"
    using waves(3) [THEN mp, OF more(1), THEN conjunct1]
    by (simp add: committed_rows_def old_store_def)
  have 4: "uncommitted ?w1 = []"
    using waves(3) [THEN mp, OF more(1), THEN conjunct2] .
  have 5: "log ?w1 = [Gather 0 [''one'', ''two''], Insert Discourse_chunks (example_row 1 ''one''),
                 Insert Discourse_chunks (example_row 2 ''two''), Commit]"
    unfolding waves(4) good_waves_log by (simp add: old_store_def)
  have "map (\<lambda>(doc, idx, chunk). chunk) (take 2 (drop (1 * 2) example_segments))
      = [''three'', ''four'']" "calls old_store + 1 * 2 = 2"
    by (simp_all add: example_segments_def example_segment_def old_store_def)
  with next_wave have 6: "log (snd ?run) = log ?w1 @ Gather 2 [''three'', ''four''] # rest"
    by (simp only:)
  have 7: "process_discourse pages_env old_store
       = Some (process_waves pages_env CONCURRENT_REQUESTS discourse_row Discourse_chunks
                 example_segments (old_store\<lparr>log := [Read_file DISCOURSE_JSON]\<rparr>))"
    using waves(6) [THEN mp, OF posts] by (simp add: old_store_def)
  have 8: "process_markdown pages_env old_store
       = Some (process_waves pages_env CONCURRENT_REQUESTS markdown_row Markdown_chunks
                 [page_segment]
                 (old_store\<lparr>log := [Read_file METADATA_JSON,
                                     Read_file (MARKDOWN_DIR @ ''/'' @ ''a.md'')]\<rparr>))"
    using waves(7) [THEN mp, OF pages] by (simp add: old_store_def)
  from 1 2 3 4 5 6 grows have "\<exists>w1 rest later.
      process_waves pages_env 2 discourse_row Discourse_chunks (take 2 example_segments) old_store
        = (Inr (), w1)
    \<and> ?run = wave_loop pages_env 2 discourse_row Discourse_chunks example_segments 2 w1
    \<and> db_file w1 = Some [(Markdown_chunks, [JInt 0]), (Discourse_chunks, example_row 1 ''one''),
                          (Discourse_chunks, example_row 2 ''two'')]
    \<and> uncommitted w1 = []
    \<and> log w1 = [Gather 0 [''one'', ''two''], Insert Discourse_chunks (example_row 1 ''one''),
                 Insert Discourse_chunks (example_row 2 ''two''), Commit]
    \<and> log (snd ?run) = log w1 @ Gather 2 [''three'', ''four''] # rest
    \<and> committed_rows (snd ?run) = committed_rows w1 @ later"
    by (intro exI [of _ ?w1] exI [of _ rest] exI [of _ later] conjI)
  with 7 8 show ?thesis
    by (intro conjI)
qed















end
